theory Spec2Isabelle
  imports Complex_Main "HOL-Library.Sublist"
begin

section \<open>Retry-checkpoint executor (retry-handler.ts, in src/ai/claude-executor.ts)\<close>

text \<open>
  JavaScript numbers that hold counts, byte offsets and millisecond timestamps are
  modelled as \<open>nat\<close> or \<open>int\<close>, costs as exact rationals; floating-point rounding is
  not modelled. A thrown value is an \<open>Error\<close> carrying its message, or the
  \<open>PentestError\<close> the executor builds itself (message, type, retryable flag).
  Of a result the loop reads \<open>success\<close>, \<open>apiErrorDetected\<close>, \<open>duration\<close>, \<open>cost\<close> and
  \<open>partialCost\<close>; its \<open>error\<close> field is called \<open>error_text\<close> here, the name \<open>error\<close>
  being the run state's.
\<close>

datatype js_error =
    JsError (message: string)
  | PentestError (message: string) (error_type: string) (retryable_flag: bool)

record ClaudePromptResultLike =
  result :: "string option"
  success :: bool
  duration :: int
  cost :: rat
  partialCost :: "rat option"
  apiErrorDetected :: bool
  error_text :: "string option"

text \<open>
  The collaborators of the loop (git-manager, the audit session, the timer) are not part
  of the module; each call to one of them is recorded, in order, as an event:
  \<open>createGitCheckpoint\<close>, \<open>startAgent\<close>, the run of the unit, \<open>endAgent\<close> (attempt,
  success, cost, error, isFinalAttempt), \<open>commitGitSuccess\<close>, \<open>rollbackGitWorkspace\<close> with
  its reason, and the \<open>setTimeout\<close> delay. They are taken to return normally.
\<close>

datatype exec_event =
    Checkpoint nat
  | StartAgent nat
  | RunAttempt nat
  | EndAgent nat bool rat "string option" "bool option"
  | CommitSuccess
  | Rollback string
  | Sleep int

text \<open>
  \<open>isRetryableError\<close> and \<open>getRetryDelay\<close> are imported from error-handling.js;
  the executor is parametric in them.
\<close>

record error_handling =
  isRetryableError :: "js_error \<Rightarrow> bool"
  getRetryDelay :: "js_error \<Rightarrow> nat \<Rightarrow> int"

record RunWithRetryOptions =
  source_dir :: string
  description :: string
  agent_name :: "string option"
  session_metadata :: "string option"
  max_retries :: nat
  run_single_attempt :: "nat \<Rightarrow> js_error + ClaudePromptResultLike"
  validate_output :: "ClaudePromptResultLike \<Rightarrow> js_error + bool"

definition has_audit_session :: "RunWithRetryOptions \<Rightarrow> bool" where
  "has_audit_session opts =
     (session_metadata opts \<noteq> None \<and> agent_name opts \<noteq> None \<and> agent_name opts \<noteq> Some [])"

definition digit_char :: "nat \<Rightarrow> char" where
  "digit_char d = char_of (48 + d)"

function show_nat :: "nat \<Rightarrow> string" where
  "show_nat n = (if n < 10 then [digit_char n] else show_nat (n div 10) @ [digit_char (n mod 10)])"
  by pat_completeness auto
termination
  by (relation "measure id") auto

declare show_nat.simps [simp del]

definition validation_exhausted_error :: "RunWithRetryOptions \<Rightarrow> js_error" where
  "validation_exhausted_error opts =
     PentestError
       (''Agent '' @ description opts @ '' failed output validation after ''
          @ show_nat (max_retries opts)
          @ '' attempts. Required deliverable files were not created.'')
       ''validation'' False"

definition validation_last_error :: "ClaudePromptResultLike \<Rightarrow> js_error" where
  "validation_last_error r =
     (if apiErrorDetected r then JsError ''API Error: terminated with validation failure''
      else JsError ''Output validation failed'')"

text \<open>How control leaves the \<open>try\<close> block of one iteration.\<close>

datatype try_outcome =
    TryReturn ClaudePromptResultLike "exec_event list"
  | TryContinue "js_error option" "exec_event list"
  | TryFallThrough "js_error option" "exec_event list"
  | TryThrow js_error "js_error option" "exec_event list"

definition audit_events :: "RunWithRetryOptions \<Rightarrow> exec_event list \<Rightarrow> exec_event list" where
  "audit_events opts evs = (if has_audit_session opts then evs else [])"

definition try_block ::
  "RunWithRetryOptions \<Rightarrow> nat \<Rightarrow> js_error option \<Rightarrow> exec_event list \<Rightarrow> try_outcome" where
  "try_block opts attempt last_error evs =
     (let evs1 = evs @ [RunAttempt attempt] in
      case run_single_attempt opts attempt of
        Inl e \<Rightarrow> TryThrow e last_error evs1
      | Inr r \<Rightarrow>
          if success r then
            (case validate_output opts r of
               Inl e \<Rightarrow> TryThrow e last_error evs1
             | Inr passed \<Rightarrow>
                 if passed then
                   TryReturn r
                     (evs1 @ audit_events opts [EndAgent attempt True (cost r) None None]
                           @ [CommitSuccess])
                 else
                   (let evs2 = evs1 @ audit_events opts
                          [EndAgent attempt False
                             (case partialCost r of Some c \<Rightarrow> c | None \<Rightarrow> cost r)
                             (Some ''Output validation failed'')
                             (Some (attempt = max_retries opts))];
                        last_error' = Some (validation_last_error r)
                    in if attempt < max_retries opts
                       then TryContinue last_error' (evs2 @ [Rollback ''validation failure''])
                       else TryThrow (validation_exhausted_error opts) last_error' evs2))
          else TryFallThrough last_error evs1)"

text \<open>How control leaves one iteration of the \<open>for\<close> loop.\<close>

datatype step_outcome =
    Done "js_error option + ClaudePromptResultLike" "exec_event list"
  | NextAttempt "js_error option" "exec_event list"

definition catch_block ::
  "error_handling \<Rightarrow> RunWithRetryOptions \<Rightarrow> nat \<Rightarrow> js_error \<Rightarrow> exec_event list \<Rightarrow> step_outcome" where
  "catch_block eh opts attempt err evs =
     (let evs1 = evs @ audit_events opts
            [EndAgent attempt False 0 (Some (message err)) (Some (attempt = max_retries opts))]
      in if \<not> isRetryableError eh err then
           Done (Inl (Some err)) (evs1 @ [Rollback ''non-retryable error cleanup''])
         else if attempt < max_retries opts then
           NextAttempt (Some err)
             (evs1 @ [Rollback ''retryable error cleanup'', Sleep (getRetryDelay eh err attempt)])
         else
           NextAttempt (Some err) (evs1 @ [Rollback ''final failure cleanup'']))"

definition attempt_step ::
  "error_handling \<Rightarrow> RunWithRetryOptions \<Rightarrow> nat \<Rightarrow> js_error option \<Rightarrow> exec_event list \<Rightarrow> step_outcome" where
  "attempt_step eh opts attempt last_error evs =
     (let evs1 = evs @ [Checkpoint attempt] @ audit_events opts [StartAgent attempt] in
      case try_block opts attempt last_error evs1 of
        TryReturn r evs2 \<Rightarrow> Done (Inr r) evs2
      | TryContinue le evs2 \<Rightarrow> NextAttempt le evs2
      | TryFallThrough le evs2 \<Rightarrow> NextAttempt le evs2
      | TryThrow e le evs2 \<Rightarrow> catch_block eh opts attempt e evs2)"

function attempt_loop ::
  "error_handling \<Rightarrow> RunWithRetryOptions \<Rightarrow> nat \<Rightarrow> js_error option \<Rightarrow> exec_event list
     \<Rightarrow> (js_error option + ClaudePromptResultLike) \<times> exec_event list" where
  "attempt_loop eh opts attempt last_error evs =
     (if attempt \<le> max_retries opts then
        (case attempt_step eh opts attempt last_error evs of
           Done r evs' \<Rightarrow> (r, evs')
         | NextAttempt le evs' \<Rightarrow> attempt_loop eh opts (Suc attempt) le evs')
      else (Inl last_error, evs))"
  by pat_completeness auto
termination
  by (relation "measure (\<lambda>(eh, opts, attempt, le, evs). Suc (max_retries opts) - attempt)") auto

declare attempt_loop.simps [simp del]

text \<open>
  The value thrown by the final \<open>throw last_error\<close> is \<open>Inl last_error\<close>; \<open>Inl None\<close> is
  JavaScript's \<open>throw undefined\<close>.
\<close>

definition run_claude_prompt_with_retry ::
  "error_handling \<Rightarrow> RunWithRetryOptions
     \<Rightarrow> (js_error option + ClaudePromptResultLike) \<times> exec_event list" where
  "run_claude_prompt_with_retry eh opts = attempt_loop eh opts 1 None []"

fun is_checkpoint :: "exec_event \<Rightarrow> bool" where
  "is_checkpoint (Checkpoint n) = True"
| "is_checkpoint e = False"

fun is_rollback :: "exec_event \<Rightarrow> bool" where
  "is_rollback (Rollback r) = True"
| "is_rollback e = False"

fun is_run_attempt :: "exec_event \<Rightarrow> bool" where
  "is_run_attempt (RunAttempt n) = True"
| "is_run_attempt e = False"

fun is_commit :: "exec_event \<Rightarrow> bool" where
  "is_commit CommitSuccess = True"
| "is_commit e = False"

fun sleeps :: "exec_event list \<Rightarrow> int list" where
  "sleeps [] = []"
| "sleeps (Sleep d # es) = d # sleeps es"
| "sleeps (e # es) = sleeps es"

text \<open>
  \<open>settled opn es\<close>: reading the events in order, with \<open>opn\<close> telling whether a
  checkpoint is open, every checkpoint is closed by a rollback or a commit before the
  next checkpoint is taken and before the events end.
\<close>

fun settled :: "bool \<Rightarrow> exec_event list \<Rightarrow> bool" where
  "settled opn [] = (\<not> opn)"
| "settled opn (Checkpoint n # es) = (\<not> opn \<and> settled True es)"
| "settled opn (Rollback r # es) = settled False es"
| "settled opn (CommitSuccess # es) = settled False es"
| "settled opn (e # es) = settled opn es"

definition attempt_marks :: "exec_event list \<Rightarrow> exec_event list" where
  "attempt_marks evs = filter (\<lambda>e. is_checkpoint e \<or> is_run_attempt e) evs"

text \<open>
  The failures the loop has a branch for: the runner raises an error the classifier calls
  retryable, or it returns a successful result that the validator rejects (or on which
  the validator raises a retryable error). A result with \<open>success = false\<close> is not among
  them: the loop has no branch for it. \<open>attempt_error\<close> is the error a handled failure
  ends with when it is the last attempt's.
\<close>

definition handled_failure :: "error_handling \<Rightarrow> RunWithRetryOptions \<Rightarrow> nat \<Rightarrow> bool" where
  "handled_failure eh opts attempt =
     (case run_single_attempt opts attempt of
        Inl e \<Rightarrow> isRetryableError eh e
      | Inr r \<Rightarrow>
          success r \<and>
          (case validate_output opts r of Inl e \<Rightarrow> isRetryableError eh e | Inr passed \<Rightarrow> \<not> passed))"

definition attempt_error :: "RunWithRetryOptions \<Rightarrow> nat \<Rightarrow> js_error" where
  "attempt_error opts attempt =
     (case run_single_attempt opts attempt of
        Inl e \<Rightarrow> e
      | Inr r \<Rightarrow>
          (case validate_output opts r of
             Inl e \<Rightarrow> e
           | Inr passed \<Rightarrow> validation_exhausted_error opts))"

definition one_failed_attempt :: "nat \<Rightarrow> exec_event list \<Rightarrow> bool" where
  "one_failed_attempt a evs =
     (length (filter is_checkpoint evs) = 1 \<and> length (filter is_rollback evs) = 1
      \<and> filter is_commit evs = [] \<and> attempt_marks evs = [Checkpoint a, RunAttempt a]
      \<and> (\<forall>es. settled False (evs @ es) = settled False es))"

subsection \<open>Error classification tables (src/constants/error-patterns.ts)\<close>

definition RETRYABLE_PATTERNS :: "string list" where
  "RETRYABLE_PATTERNS =
     [''network'', ''connection'', ''timeout'', ''econnreset'', ''enotfound'', ''econnrefused'',
      ''rate limit'', ''429'', ''too many requests'', ''server error'', ''5xx'',
      ''internal server error'', ''service unavailable'', ''bad gateway'', ''mcp server'',
      ''model unavailable'', ''service temporarily unavailable'', ''api error'', ''terminated'',
      ''max turns'', ''maximum turns'']"

definition NON_RETRYABLE_PATTERNS :: "string list" where
  "NON_RETRYABLE_PATTERNS =
     [''authentication'', ''invalid prompt'', ''out of memory'', ''permission denied'',
      ''session limit reached'', ''invalid api key'']"

text \<open>\<open>String.prototype.toLowerCase\<close> and \<open>includes\<close>, on ASCII text.\<close>

definition lower_char :: "char \<Rightarrow> char" where
  "lower_char c =
     (case map_of (zip ''ABCDEFGHIJKLMNOPQRSTUVWXYZ'' ''abcdefghijklmnopqrstuvwxyz'') c of
        Some l \<Rightarrow> l | None \<Rightarrow> c)"

definition toLowerCase :: "string \<Rightarrow> string" where
  "toLowerCase s = map lower_char s"

fun includes_str :: "string \<Rightarrow> string \<Rightarrow> bool" where
  "includes_str [] p = (p = [])"
| "includes_str (c # cs) p = (prefix p (c # cs) \<or> includes_str cs p)"

text \<open>
  Modelled from the spec: \<open>isRetryableError\<close> and \<open>getRetryDelay\<close> live in
  error-handling.ts, which is not among the sources. The spec describes the classifier
  as driven by a static table of textual error signatures, and the table's own comment
  says the non-retryable patterns are checked before the default; the delay is a numeric
  function of the error and the attempt number, increasing and then capped. These two
  definitions are used to instantiate the parametric executor at concrete inputs only.
\<close>

definition isRetryableError_model :: "js_error \<Rightarrow> bool" where
  "isRetryableError_model err =
     (let m = toLowerCase (message err) in
      if list_ex (includes_str m) NON_RETRYABLE_PATTERNS then False
      else list_ex (includes_str m) RETRYABLE_PATTERNS)"

definition getRetryDelay_model :: "js_error \<Rightarrow> nat \<Rightarrow> int" where
  "getRetryDelay_model err attempt = min 30000 (1000 * 2 ^ attempt)"

definition model_error_handling :: error_handling where
  "model_error_handling =
     \<lparr>isRetryableError = isRetryableError_model, getRetryDelay = getRetryDelay_model\<rparr>"

subsection \<open>Concrete units of work\<close>

definition ok_result :: "string \<Rightarrow> ClaudePromptResultLike" where
  "ok_result out =
     \<lparr>result = Some out, success = True, duration = 1200, cost = 1 / 4,
      partialCost = Some (1 / 4), apiErrorDetected = False, error_text = None\<rparr>"

definition failed_result :: "string \<Rightarrow> ClaudePromptResultLike" where
  "failed_result msg =
     \<lparr>result = None, success = False, duration = 300, cost = 0,
      partialCost = None, apiErrorDetected = False, error_text = Some msg\<rparr>"

definition recon_options :: RunWithRetryOptions where
  "recon_options =
     \<lparr>source_dir = ''repo'', description = ''Recon agent'', agent_name = Some ''recon'',
      session_metadata = Some ''session-1'', max_retries = 3,
      run_single_attempt = (\<lambda>attempt. Inr (ok_result ''done'')),
      validate_output = (\<lambda>r. Inr (result r = Some ''done''))\<rparr>"

definition invalid_key_options :: RunWithRetryOptions where
  "invalid_key_options =
     recon_options\<lparr>run_single_attempt := (\<lambda>attempt. Inl (JsError ''Invalid API key provided''))\<rparr>"

definition rate_limited_options :: RunWithRetryOptions where
  "rate_limited_options =
     recon_options\<lparr>max_retries := 2,
       run_single_attempt := (\<lambda>attempt. Inl (JsError ''Rate limit exceeded''))\<rparr>"

definition validation_fails_once :: RunWithRetryOptions where
  "validation_fails_once =
     recon_options\<lparr>max_retries := 2,
       run_single_attempt :=
         (\<lambda>attempt. if attempt = 1 then Inr (ok_result ''draft'') else Inr (ok_result ''done''))\<rparr>"

definition runner_throws_once :: RunWithRetryOptions where
  "runner_throws_once =
     recon_options\<lparr>max_retries := 2,
       run_single_attempt :=
         (\<lambda>attempt. if attempt = 1 then Inl (JsError ''Network error'')
                     else Inr (ok_result ''done''))\<rparr>"

definition validation_never_passes :: RunWithRetryOptions where
  "validation_never_passes =
     recon_options\<lparr>max_retries := 2,
       run_single_attempt := (\<lambda>attempt. Inr (ok_result ''draft''))\<rparr>"

definition runner_reports_failure :: RunWithRetryOptions where
  "runner_reports_failure =
     recon_options\<lparr>max_retries := 2,
       run_single_attempt := (\<lambda>attempt. Inr (failed_result ''Network timeout''))\<rparr>"

section \<open>Pipeline workflow (src/temporal/workflows.ts)\<close>

datatype run_status = Running | Completed | Failed

record AgentMetrics =
  durationMs :: int
  inputTokens :: "int option"
  outputTokens :: "int option"
  costUsd :: "rat option"
  numTurns :: "int option"
  model :: "string option"

record PipelineSummary =
  totalCostUsd :: rat
  totalDurationMs :: int
  totalTurns :: int
  agentCount :: nat

text \<open>
  \<open>agentMetrics\<close> is a JavaScript object: an association list in insertion order,
  where assigning to a present key replaces its value in place.
\<close>

record PipelineState =
  status :: run_status
  currentPhase :: "string option"
  currentAgent :: "string option"
  completedAgents :: "string list"
  failedAgent :: "string option"
  error :: "string option"
  startTime :: int
  agentMetrics :: "(string \<times> AgentMetrics) list"
  summary :: "PipelineSummary option"

text \<open>The query result \<open>{...state, workflowId, elapsedMs}\<close> extends the state record.\<close>

record PipelineProgress = PipelineState +
  workflowId :: string
  elapsedMs :: int

fun assign :: "'k \<Rightarrow> 'v \<Rightarrow> ('k \<times> 'v) list \<Rightarrow> ('k \<times> 'v) list" where
  "assign k v [] = [(k, v)]"
| "assign k v ((k', v') # kvs) = (if k' = k then (k, v) # kvs else (k', v') # assign k v kvs)"

text \<open>
  A thrown value is an \<open>Error\<close> with its message, or any other value with its
  \<open>String(...)\<close> rendering; \<open>error_message\<close> is
  \<open>error instanceof Error ? error.message : String(error)\<close>.
\<close>

datatype thrown = ErrorObject string | OtherValue string

fun error_message :: "thrown \<Rightarrow> string" where
  "error_message (ErrorObject m) = m"
| "error_message (OtherValue s) = s"

definition computeSummary :: "PipelineState \<Rightarrow> int \<Rightarrow> PipelineSummary" where
  "computeSummary st now =
     (let metrics = map snd (agentMetrics st) in
      \<lparr>totalCostUsd = foldl (\<lambda>sum m. sum + (case costUsd m of Some c \<Rightarrow> c | None \<Rightarrow> 0)) 0 metrics,
       totalDurationMs = now - startTime st,
       totalTurns = foldl (\<lambda>sum m. sum + (case numTurns m of Some n \<Rightarrow> n | None \<Rightarrow> 0)) 0 metrics,
       agentCount = length (completedAgents st)\<rparr>)"

record WorkflowSummary =
  ws_status :: run_status
  ws_totalDurationMs :: int
  ws_totalCostUsd :: rat
  ws_completedAgents :: "string list"
  ws_agentMetrics :: "(string \<times> int \<times> rat option) list"
  ws_error :: "string option"

text \<open>
  \<open>state.summary!\<close> is a non-null assertion: reading a field of \<open>null\<close> throws a
  \<open>TypeError\<close>.
\<close>

definition build_workflow_summary ::
  "PipelineState \<Rightarrow> run_status \<Rightarrow> string option \<Rightarrow> thrown + WorkflowSummary" where
  "build_workflow_summary st st_status err =
     (case summary st of
        None \<Rightarrow> Inl (ErrorObject ''Cannot read properties of null'')
      | Some sm \<Rightarrow>
          Inr \<lparr>ws_status = st_status,
               ws_totalDurationMs = totalDurationMs sm,
               ws_totalCostUsd = totalCostUsd sm,
               ws_completedAgents = completedAgents st,
               ws_agentMetrics = map (\<lambda>(name, m). (name, durationMs m, costUsd m)) (agentMetrics st),
               ws_error = err\<rparr>)"

record ExploitationDecision =
  shouldExploit :: bool
  vulnerabilityCount :: int

datatype VulnExploitPipelineResult =
  VulnExploitPipelineResult
    (vulnType: string) (vulnMetrics: AgentMetrics) (exploitMetrics: "AgentMetrics option")
    (exploitDecision: ExploitationDecision) (result_error: "string option")

text \<open>
  The activities are the workflow's environment: each call either returns or throws.
  \<open>runAgent\<close> stands for the agent activities, named by the unit they run:
  \<open>runPreReconAgent\<close> is \<open>runAgent ''pre-recon''\<close>, \<open>runInjectionVulnAgent\<close> is
  \<open>runAgent ''injection-vuln''\<close>, \<open>runReportAgent\<close> is \<open>runAgent ''report''\<close>, and so
  on. \<open>now\<close> is the workflow clock read by \<open>Date.now()\<close>, as a function of the number
  of suspensions the workflow has gone through.
\<close>

record activities =
  logPhaseTransition :: "string \<Rightarrow> string \<Rightarrow> thrown option"
  runAgent :: "string \<Rightarrow> thrown + AgentMetrics"
  checkExploitationQueue :: "string \<Rightarrow> thrown + ExploitationDecision"
  assembleReportActivity :: "thrown option"
  injectReportMetadataActivity :: "thrown option"
  logWorkflowComplete :: "WorkflowSummary \<Rightarrow> thrown option"
  now :: "nat \<Rightarrow> int"

text \<open>
  The workflow runs on one thread and yields only at an \<open>await\<close>. \<open>observed\<close> lists the
  run state as a query would find it at each suspension, in order; \<open>notified\<close> lists the
  summaries passed to \<open>logWorkflowComplete\<close>; \<open>console\<close> the lists printed by
  \<open>console.log\<close>; \<open>pipelineResults\<close> what \<open>Promise.allSettled\<close> returned.
\<close>

record world =
  state :: PipelineState
  observed :: "PipelineState list"
  awaits :: nat
  notified :: "WorkflowSummary list"
  console :: "string list list"
  pipelineResults :: "(thrown + VulnExploitPipelineResult) list"

definition suspend :: "world \<Rightarrow> world" where
  "suspend w = w\<lparr>observed := observed w @ [state w], awaits := Suc (awaits w)\<rparr>"

definition modify :: "(PipelineState \<Rightarrow> PipelineState) \<Rightarrow> world \<Rightarrow> world" where
  "modify f w = w\<lparr>state := f (state w)\<rparr>"

definition record_agent :: "string \<Rightarrow> AgentMetrics \<Rightarrow> PipelineState \<Rightarrow> PipelineState" where
  "record_agent name m st =
     st\<lparr>agentMetrics := assign name m (agentMetrics st),
        completedAgents := completedAgents st @ [name]\<rparr>"

definition execute_pre_recon_phase :: "activities \<Rightarrow> world \<Rightarrow> thrown option \<times> world" where
  "execute_pre_recon_phase a w0 =
     (let w1 = suspend (modify (\<lambda>st. st\<lparr>currentPhase := Some ''pre-recon'',
                                          currentAgent := Some ''pre-recon''\<rparr>) w0) in
      case logPhaseTransition a ''pre-recon'' ''start'' of
        Some e \<Rightarrow> (Some e, w1)
      | None \<Rightarrow>
          (let w2 = suspend w1 in
           case runAgent a ''pre-recon'' of
             Inl e \<Rightarrow> (Some e, w2)
           | Inr m \<Rightarrow>
               (let w3 = suspend (modify (record_agent ''pre-recon'' m) w2) in
                (logPhaseTransition a ''pre-recon'' ''complete'', w3))))"

definition execute_recon_phase :: "activities \<Rightarrow> world \<Rightarrow> thrown option \<times> world" where
  "execute_recon_phase a w0 =
     (let w1 = suspend (modify (\<lambda>st. st\<lparr>currentPhase := Some ''recon'',
                                          currentAgent := Some ''recon''\<rparr>) w0) in
      case logPhaseTransition a ''recon'' ''start'' of
        Some e \<Rightarrow> (Some e, w1)
      | None \<Rightarrow>
          (let w2 = suspend w1 in
           case runAgent a ''recon'' of
             Inl e \<Rightarrow> (Some e, w2)
           | Inr m \<Rightarrow>
               (let w3 = suspend (modify (record_agent ''recon'' m) w2) in
                (logPhaseTransition a ''recon'' ''complete'', w3))))"

text \<open>
  One sub-pipeline between two of its suspensions. It waits for its vulnerability
  agent, then for the queue check, then (if gated) for its exploit agent, and is then
  settled: fulfilled with a result or rejected with what was thrown.
\<close>

datatype pipeline_state =
    AwaitVuln
  | AwaitQueue AgentMetrics
  | AwaitExploit AgentMetrics ExploitationDecision
  | Settled "thrown + VulnExploitPipelineResult"

fun run_vuln_exploit_pipeline ::
  "activities \<Rightarrow> string \<Rightarrow> pipeline_state \<Rightarrow> world \<Rightarrow> pipeline_state \<times> world" where
  "run_vuln_exploit_pipeline a vt AwaitVuln w =
     (case runAgent a (vt @ ''-vuln'') of
        Inl e \<Rightarrow> (Settled (Inl e), suspend w)
      | Inr m \<Rightarrow> (AwaitQueue m, suspend (modify (record_agent (vt @ ''-vuln'') m) w)))"
| "run_vuln_exploit_pipeline a vt (AwaitQueue m) w =
     (case checkExploitationQueue a vt of
        Inl e \<Rightarrow> (Settled (Inl e), suspend w)
      | Inr d \<Rightarrow>
          if shouldExploit d then (AwaitExploit m d, suspend w)
          else (Settled (Inr (VulnExploitPipelineResult vt m None
                  \<lparr>shouldExploit = shouldExploit d, vulnerabilityCount = vulnerabilityCount d\<rparr>
                  None)),
                suspend w))"
| "run_vuln_exploit_pipeline a vt (AwaitExploit m d) w =
     (case runAgent a (vt @ ''-exploit'') of
        Inl e \<Rightarrow> (Settled (Inl e), suspend w)
      | Inr em \<Rightarrow>
          (Settled (Inr (VulnExploitPipelineResult vt m (Some em)
             \<lparr>shouldExploit = shouldExploit d, vulnerabilityCount = vulnerabilityCount d\<rparr>
             None)),
           suspend (modify (record_agent (vt @ ''-exploit'') em) w)))"
| "run_vuln_exploit_pipeline a vt (Settled r) w = (Settled r, w)"

text \<open>
  The value the promise of one sub-pipeline settles to, read off the body of the
  \<open>async\<close> function: the first activity that throws rejects it.
\<close>

definition pipeline_outcome :: "activities \<Rightarrow> string \<Rightarrow> thrown + VulnExploitPipelineResult" where
  "pipeline_outcome a vt =
     (case runAgent a (vt @ ''-vuln'') of
        Inl e \<Rightarrow> Inl e
      | Inr m \<Rightarrow>
          (case checkExploitationQueue a vt of
             Inl e \<Rightarrow> Inl e
           | Inr d \<Rightarrow>
               if shouldExploit d then
                 (case runAgent a (vt @ ''-exploit'') of
                    Inl e \<Rightarrow> Inl e
                  | Inr em \<Rightarrow>
                      Inr (VulnExploitPipelineResult vt m (Some em)
                             \<lparr>shouldExploit = shouldExploit d,
                              vulnerabilityCount = vulnerabilityCount d\<rparr> None))
               else
                 Inr (VulnExploitPipelineResult vt m None
                        \<lparr>shouldExploit = shouldExploit d,
                         vulnerabilityCount = vulnerabilityCount d\<rparr> None)))"

definition vuln_types :: "string list" where
  "vuln_types = [''injection'', ''xss'', ''auth'', ''ssrf'', ''authz'']"

text \<open>
  The five sub-pipelines run concurrently: whenever a pending activity of one of them
  completes, that sub-pipeline runs up to its next \<open>await\<close>. A schedule is the order in
  which these completions arrive, as indices into the list of sub-pipelines. Completions
  the schedule does not list arrive afterwards, sub-pipeline by sub-pipeline in
  declaration order (three are enough for each), so every sub-pipeline settles, as
  \<open>Promise.allSettled\<close> waits for.
\<close>

definition step_at ::
  "activities \<Rightarrow> nat \<Rightarrow> (string \<times> pipeline_state) list \<times> world
     \<Rightarrow> (string \<times> pipeline_state) list \<times> world" where
  "step_at a i pw =
     (let (ps, w) = pw in
      if i < length ps then
        (let (vt, st) = ps ! i; (st', w') = run_vuln_exploit_pipeline a vt st w
         in (ps[i := (vt, st')], w'))
      else (ps, w))"

definition run_schedule ::
  "activities \<Rightarrow> nat list \<Rightarrow> (string \<times> pipeline_state) list \<times> world
     \<Rightarrow> (string \<times> pipeline_state) list \<times> world" where
  "run_schedule a sched pw = foldl (\<lambda>pw i. step_at a i pw) pw sched"

fun settle_remaining ::
  "activities \<Rightarrow> (string \<times> pipeline_state) list \<Rightarrow> world
     \<Rightarrow> (string \<times> pipeline_state) list \<times> world" where
  "settle_remaining a [] w = ([], w)"
| "settle_remaining a ((vt, st) # ps) w =
     (let (st1, w1) = run_vuln_exploit_pipeline a vt st w;
          (st2, w2) = run_vuln_exploit_pipeline a vt st1 w1;
          (st3, w3) = run_vuln_exploit_pipeline a vt st2 w2;
          (ps', w') = settle_remaining a ps w3
      in ((vt, st3) # ps', w'))"

fun settled_results ::
  "(string \<times> pipeline_state) list \<Rightarrow> (thrown + VulnExploitPipelineResult) list" where
  "settled_results [] = []"
| "settled_results ((vt, Settled r) # ps) = r # settled_results ps"
| "settled_results (p # ps) = settled_results ps"

fun rejection_reasons :: "(thrown + 'a) list \<Rightarrow> string list" where
  "rejection_reasons [] = []"
| "rejection_reasons (Inl e # rs) = error_message e # rejection_reasons rs"
| "rejection_reasons (Inr r # rs) = rejection_reasons rs"

definition execute_vulnerability_exploitation_phase ::
  "activities \<Rightarrow> nat list \<Rightarrow> world \<Rightarrow> thrown option \<times> world" where
  "execute_vulnerability_exploitation_phase a sched w0 =
     (let w1 = suspend (modify (\<lambda>st. st\<lparr>currentPhase := Some ''vulnerability-exploitation'',
                                          currentAgent := Some ''pipelines''\<rparr>) w0) in
      case logPhaseTransition a ''vulnerability-exploitation'' ''start'' of
        Some e \<Rightarrow> (Some e, w1)
      | None \<Rightarrow>
          (let (ps1, w1') = run_schedule a sched
                              (map (\<lambda>vt. (vt, AwaitVuln)) vuln_types, suspend w1);
               (ps, w2) = settle_remaining a ps1 w1';
               results = settled_results ps;
               failedPipelines = rejection_reasons results;
               w3 = w2\<lparr>pipelineResults := results,
                       console := (if failedPipelines \<noteq> [] then console w2 @ [failedPipelines]
                                   else console w2)\<rparr>;
               w4 = suspend (modify (\<lambda>st. st\<lparr>currentPhase := Some ''exploitation'',
                                                 currentAgent := None\<rparr>) w3)
           in (logPhaseTransition a ''vulnerability-exploitation'' ''complete'', w4)))"

definition execute_reporting_phase :: "activities \<Rightarrow> world \<Rightarrow> thrown option \<times> world" where
  "execute_reporting_phase a w0 =
     (let w1 = suspend (modify (\<lambda>st. st\<lparr>currentPhase := Some ''reporting'',
                                          currentAgent := Some ''report''\<rparr>) w0) in
      case logPhaseTransition a ''reporting'' ''start'' of
        Some e \<Rightarrow> (Some e, w1)
      | None \<Rightarrow>
          (let w2 = suspend w1 in
           case assembleReportActivity a of
             Some e \<Rightarrow> (Some e, w2)
           | None \<Rightarrow>
               (let w3 = suspend w2 in
                case runAgent a ''report'' of
                  Inl e \<Rightarrow> (Some e, w3)
                | Inr m \<Rightarrow>
                    (let w4 = suspend (modify (record_agent ''report'' m) w3) in
                     case injectReportMetadataActivity a of
                       Some e \<Rightarrow> (Some e, w4)
                     | None \<Rightarrow> (logPhaseTransition a ''reporting'' ''complete'', suspend w4)))))"

definition initial_state :: "activities \<Rightarrow> PipelineState" where
  "initial_state a =
     \<lparr>status = Running, currentPhase = None, currentAgent = None, completedAgents = [],
      failedAgent = None, error = None, startTime = now a 0, agentMetrics = [],
      summary = None\<rparr>"

definition initial_world :: "activities \<Rightarrow> world" where
  "initial_world a =
     \<lparr>state = initial_state a, observed = [], awaits = 0, notified = [], console = [],
      pipelineResults = []\<rparr>"

text \<open>The \<open>getProgress\<close> query handler, given the clock reading of the call.\<close>

definition getProgress_handler :: "PipelineState \<Rightarrow> string \<Rightarrow> int \<Rightarrow> PipelineProgress" where
  "getProgress_handler st wid clock =
     PipelineState.extend st (PipelineProgress.fields wid (clock - startTime st))"

text \<open>The \<open>catch\<close> block of the workflow, entered with the thrown value.\<close>

definition catch_workflow_error ::
  "activities \<Rightarrow> thrown \<Rightarrow> world \<Rightarrow> (thrown + PipelineState) \<times> world" where
  "catch_workflow_error a err w0 =
     (let w1 = modify (\<lambda>st. st\<lparr>status := Failed, failedAgent := currentAgent st,
                                error := Some (error_message err)\<rparr>) w0;
          w2 = modify (\<lambda>st. st\<lparr>summary := Some (computeSummary st (now a (awaits w1)))\<rparr>) w1
      in case build_workflow_summary (state w2) Failed (error (state w2)) of
           Inl e \<Rightarrow> (Inl e, w2)
         | Inr ws \<Rightarrow>
             (let w3 = suspend (w2\<lparr>notified := notified w2 @ [ws]\<rparr>) in
              case logWorkflowComplete a ws of
                Some e \<Rightarrow> (Inl e, w3)
              | None \<Rightarrow> (Inl err, w3)))"

text \<open>The four phases of the \<open>try\<close> block, up to the first one that throws.\<close>

definition run_phases :: "activities \<Rightarrow> nat list \<Rightarrow> world \<Rightarrow> thrown option \<times> world" where
  "run_phases a sched w0 =
     (case execute_pre_recon_phase a w0 of
        (Some e, w1) \<Rightarrow> (Some e, w1)
      | (None, w1) \<Rightarrow>
          (case execute_recon_phase a w1 of
             (Some e, w2) \<Rightarrow> (Some e, w2)
           | (None, w2) \<Rightarrow>
               (case execute_vulnerability_exploitation_phase a sched w2 of
                  (Some e, w3) \<Rightarrow> (Some e, w3)
                | (None, w3) \<Rightarrow> execute_reporting_phase a w3)))"

definition pentestPipelineWorkflow ::
  "activities \<Rightarrow> nat list \<Rightarrow> (thrown + PipelineState) \<times> world" where
  "pentestPipelineWorkflow a sched =
     (case run_phases a sched (initial_world a) of
        (Some e, w) \<Rightarrow> catch_workflow_error a e w
      | (None, w) \<Rightarrow>
          (let w1 = modify (\<lambda>st. st\<lparr>status := Completed, currentPhase := None,
                                     currentAgent := None\<rparr>) w;
               w2 = modify (\<lambda>st. st\<lparr>summary := Some (computeSummary st (now a (awaits w1)))\<rparr>) w1
           in case build_workflow_summary (state w2) Completed None of
                Inl e \<Rightarrow> catch_workflow_error a e w2
              | Inr ws \<Rightarrow>
                  (let w3 = suspend (w2\<lparr>notified := notified w2 @ [ws]\<rparr>) in
                   case logWorkflowComplete a ws of
                     Some e \<Rightarrow> catch_workflow_error a e w3
                   | None \<Rightarrow> (Inr (state w3), w3))))"

text \<open>
  The states a query can find during a run: the initial one, those at the suspensions,
  and the final one.
\<close>

definition observable_states :: "activities \<Rightarrow> nat list \<Rightarrow> PipelineState list" where
  "observable_states a sched =
     (let w = snd (pentestPipelineWorkflow a sched)
      in initial_state a # observed w @ [state w])"

section \<open>Progress bridge (ui/temporal_bridge.ts)\<close>

definition upper_char :: "char \<Rightarrow> char" where
  "upper_char c =
     (case map_of (zip ''abcdefghijklmnopqrstuvwxyz'' ''ABCDEFGHIJKLMNOPQRSTUVWXYZ'') c of
        Some u \<Rightarrow> u | None \<Rightarrow> c)"

definition toUpperCase :: "string \<Rightarrow> string" where
  "toUpperCase s = map upper_char s"

text \<open>
  What \<open>handle.describe()\<close> returns, as far as \<open>getProgress\<close> reads it:
  \<open>description.status?.name\<close> and \<open>description.startTime\<close> (in milliseconds), either of
  which may be missing.
\<close>

record WorkflowDescription =
  status_name :: "string option"
  description_startTime :: "int option"

text \<open>
  The Temporal client as \<open>getProgress\<close> uses it: \<open>connect\<close> throws or not, the query and
  \<open>describe()\<close> return or throw, and \<open>date_now\<close> is the reading of \<open>Date.now()\<close>.
\<close>

record temporal_client =
  connect :: "thrown option"
  query_getProgress :: "string \<Rightarrow> thrown + PipelineProgress"
  describe :: "string \<Rightarrow> thrown + WorkflowDescription"
  date_now :: int

definition to_progress_status :: "string option \<Rightarrow> run_status" where
  "to_progress_status name =
     (let normalized_status = toUpperCase (case name of Some n \<Rightarrow> n | None \<Rightarrow> []) in
      if normalized_status = ''RUNNING'' then Running
      else if normalized_status = ''COMPLETED'' then Completed
      else Failed)"

definition is_query_unavailable_error :: "thrown \<Rightarrow> bool" where
  "is_query_unavailable_error err =
     (let normalized_message = toLowerCase (error_message err) in
      includes_str normalized_message ''failed_precondition'' \<or>
      includes_str normalized_message ''failed to query workflow'' \<or>
      includes_str normalized_message ''workflow task in failed state'' \<or>
      includes_str normalized_message ''no poller seen for task queue recently'')"

definition reconciliation_note :: "WorkflowDescription \<Rightarrow> string" where
  "reconciliation_note d =
     ''Workflow is '' @
       (case status_name d of
          None \<Rightarrow> ''not running''
        | Some n \<Rightarrow> if toLowerCase n = [] then ''not running'' else toLowerCase n)"

definition getProgress :: "temporal_client \<Rightarrow> string \<Rightarrow> thrown + PipelineProgress" where
  "getProgress client wid =
     (case connect client of
        Some e \<Rightarrow> Inl e
      | None \<Rightarrow>
          (case query_getProgress client wid of
             Inr progress \<Rightarrow>
               (case describe client wid of
                  Inr descr \<Rightarrow>
                    (let runtime_status = to_progress_status (status_name descr) in
                     if runtime_status \<noteq> Running then
                       (let start_time_ms =
                              (case description_startTime descr of
                                 Some t \<Rightarrow> t | None \<Rightarrow> startTime progress)
                        in Inr (progress\<lparr>status := runtime_status,
                                  startTime := start_time_ms,
                                  elapsedMs := max (elapsedMs progress)
                                                 (max 0 (date_now client - start_time_ms)),
                                  error := (case error progress of
                                              Some e \<Rightarrow> Some e
                                            | None \<Rightarrow> Some (reconciliation_note descr))\<rparr>))
                     else Inr progress)
                | Inl describe_error \<Rightarrow> Inr progress)
           | Inl err \<Rightarrow>
               if is_query_unavailable_error err then
                 (case describe client wid of
                    Inr descr \<Rightarrow>
                      (let start_time_ms =
                             (case description_startTime descr of
                                Some t \<Rightarrow> t | None \<Rightarrow> date_now client);
                           st = to_progress_status (status_name descr)
                       in Inr \<lparr>status = st, currentPhase = None, currentAgent = None,
                               completedAgents = [], failedAgent = None,
                               error = (if st = Running then None
                                        else Some (''Workflow query unavailable: '' @ error_message err)),
                               startTime = start_time_ms, agentMetrics = [], summary = None,
                               workflowId = wid,
                               elapsedMs = max 0 (date_now client - start_time_ms)\<rparr>)
                  | Inl describe_error \<Rightarrow> Inl err)
               else Inl err))"

section \<open>WebSocket server (ui/ws_server.ts)\<close>

text \<open>
  A socket is named by a number; what the server sends on it is appended to \<open>sent\<close>.
  A \<open>Set\<close> of subscriptions is a list in insertion order. Log files are ASCII text, so
  a byte offset is a character offset.
\<close>

datatype ws_message =
    MsgSubscribed string
  | MsgUnsubscribed string
  | MsgProgress PipelineProgress
  | MsgPhaseChange "string option" "string option"
  | MsgLog string
  | MsgComplete string "string option"
  | MsgFailed string "string option"
  | MsgError string

record ClientSubscription =
  ws :: nat
  sub_workflowId :: string
  lastProgress :: "PipelineProgress option"
  logPosition :: nat

record server =
  subscriptions :: "string \<rightharpoonup> ClientSubscription list"
  pollIntervals :: "string \<rightharpoonup> nat"
  lastPollErrors :: "string \<rightharpoonup> string \<times> int"
  sent :: "(nat \<times> ws_message) list"

definition pollInterval :: nat where
  "pollInterval = 5000"

definition pollErrorBackoff :: nat where
  "pollErrorBackoff = 10000"

definition shouldBroadcastPollingError :: "server \<Rightarrow> string \<Rightarrow> string \<Rightarrow> int \<Rightarrow> bool \<times> server" where
  "shouldBroadcastPollingError srv wid errorMessage now_ms =
     (case lastPollErrors srv wid of
        None \<Rightarrow>
          (True, srv\<lparr>lastPollErrors := (lastPollErrors srv)(wid \<mapsto> (errorMessage, now_ms))\<rparr>)
      | Some previous \<Rightarrow>
          (let messageChanged = (fst previous \<noteq> errorMessage);
               cooldownElapsed = (now_ms - snd previous > 30000)
           in if messageChanged \<or> cooldownElapsed then
                (True, srv\<lparr>lastPollErrors := (lastPollErrors srv)(wid \<mapsto> (errorMessage, now_ms))\<rparr>)
              else (False, srv)))"

definition stopPolling :: "server \<Rightarrow> string \<Rightarrow> server" where
  "stopPolling srv wid =
     srv\<lparr>pollIntervals := (pollIntervals srv)(wid := None),
         lastPollErrors := (lastPollErrors srv)(wid := None)\<rparr>"

definition broadcast :: "server \<Rightarrow> string \<Rightarrow> ws_message \<Rightarrow> server" where
  "broadcast srv wid msg =
     (case subscriptions srv wid of
        None \<Rightarrow> srv
      | Some subs \<Rightarrow> srv\<lparr>sent := sent srv @ map (\<lambda>sub. (ws sub, msg)) subs\<rparr>)"

definition progress_messages :: "ClientSubscription \<Rightarrow> PipelineProgress \<Rightarrow> (nat \<times> ws_message) list" where
  "progress_messages sub progress =
     (case lastProgress sub of
        Some lp \<Rightarrow>
          if currentPhase lp \<noteq> currentPhase progress
          then [(ws sub, MsgPhaseChange (currentPhase progress) (currentAgent progress))]
          else []
      | None \<Rightarrow> [])
     @ [(ws sub, MsgProgress progress)]"

definition broadcastProgress :: "server \<Rightarrow> string \<Rightarrow> PipelineProgress \<Rightarrow> server" where
  "broadcastProgress srv wid progress =
     (case subscriptions srv wid of
        None \<Rightarrow> srv
      | Some subs \<Rightarrow>
          srv\<lparr>sent := sent srv @ concat (map (\<lambda>sub. progress_messages sub progress) subs),
              subscriptions :=
                (subscriptions srv)(wid \<mapsto> map (\<lambda>sub. sub\<lparr>lastProgress := Some progress\<rparr>) subs)\<rparr>)"

subsection \<open>Tailing the log file\<close>

definition newline :: char where
  "newline = CHR 0x0A"

text \<open>\<open>s.split('\n')\<close>: never empty; the last element is what follows the last newline.\<close>

fun split_newline :: "string \<Rightarrow> string list" where
  "split_newline [] = [[]]"
| "split_newline (c # cs) =
     (if c = newline then [] # split_newline cs
      else (case split_newline cs of
              [] \<Rightarrow> [[c]]
            | l # ls \<Rightarrow> (c # l) # ls))"

definition whitespace :: "char list" where
  "whitespace = [CHR '' '', CHR 0x09, CHR 0x0A, CHR 0x0B, CHR 0x0C, CHR 0x0D]"

text \<open>\<open>line.trim()\<close> is truthy when the line has a character that is not white space.\<close>

definition trim_nonempty :: "string \<Rightarrow> bool" where
  "trim_nonempty line = list_ex (\<lambda>c. c \<notin> set whitespace) line"

text \<open>
  The \<open>data\<close> handler: the chunk is appended to the buffer, the buffer is split at
  newlines, the last piece stays in the buffer and the other pieces are the lines of
  this chunk. The pair is (lines so far, buffer).
\<close>

definition on_data :: "string list \<times> string \<Rightarrow> string \<Rightarrow> string list \<times> string" where
  "on_data acc chunk =
     (let lines = split_newline (snd acc @ chunk)
      in (fst acc @ butlast lines, last lines))"

text \<open>A read stream delivers its bytes in chunks of the high-water mark's size.\<close>

function chunks_of :: "nat \<Rightarrow> string \<Rightarrow> string list" where
  "chunks_of n s =
     (if s = [] then []
      else if n = 0 then [s]
      else take n s # chunks_of n (drop n s))"
  by pat_completeness auto
termination
  by (relation "measure (\<lambda>(n, s). length s)") auto

declare chunks_of.simps [simp del]

text \<open>
  One subscription's part of \<open>streamLogs\<close>, with the stream run to its \<open>end\<close> event:
  the lines sent as \<open>log\<close> messages and the subscription afterwards. \<open>content\<close> is the
  file as \<open>statSync\<close> and the stream both see it.
\<close>

definition tail_log :: "nat \<Rightarrow> string \<Rightarrow> ClientSubscription \<Rightarrow> string list \<times> ClientSubscription" where
  "tail_log hwm content sub =
     (if logPosition sub < length content then
        (let acc = foldl on_data ([], []) (chunks_of hwm (drop (logPosition sub) content))
         in (filter trim_nonempty (fst acc), sub\<lparr>logPosition := length content\<rparr>))
      else ([], sub))"

definition streamLogs :: "nat \<Rightarrow> server \<Rightarrow> string \<Rightarrow> string option \<Rightarrow> server" where
  "streamLogs hwm srv wid logfile =
     (case subscriptions srv wid of
        None \<Rightarrow> srv
      | Some subs \<Rightarrow>
          (case logfile of
             None \<Rightarrow> srv
           | Some content \<Rightarrow>
               (let tailed = map (tail_log hwm content) subs
                in srv\<lparr>sent := sent srv @
                          concat (map (\<lambda>(lines, sub). map (\<lambda>line. (ws sub, MsgLog line)) lines) tailed),
                       subscriptions := (subscriptions srv)(wid \<mapsto> map snd tailed)\<rparr>)))"

text \<open>
  One run of \<open>poll\<close>, given what \<open>temporal.getProgress\<close> returned or threw, the log file
  and the clock. The stream's \<open>data\<close> and \<open>end\<close> events are I/O callbacks: they run
  after the rest of \<open>poll\<close>, so the log lines are sent after the terminal message.
  \<open>pollIntervals\<close> holds the delay of the next poll when one is scheduled.
\<close>

definition polling_error_message :: "thrown \<Rightarrow> string" where
  "polling_error_message err =
     ''Failed to query workflow: '' @
       (case err of ErrorObject m \<Rightarrow> m | OtherValue v \<Rightarrow> ''Unknown error'')"

definition schedule_next :: "server \<Rightarrow> string \<Rightarrow> nat \<Rightarrow> server" where
  "schedule_next srv wid nextDelay =
     (if subscriptions srv wid = None then stopPolling srv wid
      else srv\<lparr>pollIntervals := (pollIntervals srv)(wid \<mapsto> nextDelay)\<rparr>)"

definition poll ::
  "nat \<Rightarrow> server \<Rightarrow> string \<Rightarrow> thrown + PipelineProgress \<Rightarrow> string option \<Rightarrow> int \<Rightarrow> server" where
  "poll hwm srv wid outcome logfile now_ms =
     (case outcome of
        Inr progress \<Rightarrow>
          (let srv1 = broadcastProgress srv wid progress in
           if status progress = Completed \<or> status progress = Failed then
             (let srv2 = stopPolling srv1 wid;
                  srv3 = broadcast srv2 wid
                           (if status progress = Completed
                            then MsgComplete wid (error progress)
                            else MsgFailed wid (error progress))
              in streamLogs hwm srv3 wid logfile)
           else streamLogs hwm (schedule_next srv1 wid pollInterval) wid logfile)
      | Inl err \<Rightarrow>
          (let errorMessage = polling_error_message err;
               (should, srv1) = shouldBroadcastPollingError srv wid errorMessage now_ms;
               srv2 = (if should then broadcast srv1 wid (MsgError errorMessage) else srv1)
           in schedule_next srv2 wid pollErrorBackoff))"

fun error_events :: "(nat \<times> ws_message) list \<Rightarrow> (nat \<times> string) list" where
  "error_events [] = []"
| "error_events ((sock, MsgError m) # ms) = (sock, m) # error_events ms"
| "error_events (m # ms) = error_events ms"

fun log_events :: "(nat \<times> ws_message) list \<Rightarrow> (nat \<times> string) list" where
  "log_events [] = []"
| "log_events ((sock, MsgLog l) # ms) = (sock, l) # log_events ms"
| "log_events (m # ms) = log_events ms"

text \<open>Successive reads of one subscription, one per file content, with the lines of each.\<close>

fun tail_polls :: "nat \<Rightarrow> ClientSubscription \<Rightarrow> string list \<Rightarrow> string list list \<times> ClientSubscription" where
  "tail_polls hwm sub [] = ([], sub)"
| "tail_polls hwm sub (content # contents) =
     (let (lines, sub') = tail_log hwm content sub;
          (rest, sub'') = tail_polls hwm sub' contents
      in (lines # rest, sub''))"

section \<open>Relations and invariants used in the proofs\<close>

text \<open>
  \<open>calm w w'\<close>: getting from \<open>w\<close> to \<open>w'\<close> changed neither status nor summary, sent
  no terminal notification, only added observations with that same status and summary,
  and only appended to \<open>completedAgents\<close>. \<open>keeps_log\<close>: the console and the settled
  results are untouched. \<open>consistent\<close>: a sub-pipeline's state agrees with what its
  activities returned. \<open>terminal_invariant\<close>: the summary is set iff the run is not
  running. \<open>progress_kept\<close>: every state observed so far lists a prefix of the current
  \<open>completedAgents\<close>.
\<close>

definition calm :: "world \<Rightarrow> world \<Rightarrow> bool" where
  "calm w w' =
     (status (state w') = status (state w) \<and> summary (state w') = summary (state w)
      \<and> notified w' = notified w
      \<and> (\<exists>obs. observed w' = observed w @ obs
             \<and> (\<forall>s \<in> set obs. status s = status (state w) \<and> summary s = summary (state w)))
      \<and> (\<exists>more. completedAgents (state w') = completedAgents (state w) @ more))"

definition terminal_invariant :: "PipelineState \<Rightarrow> bool" where
  "terminal_invariant s = ((summary s \<noteq> None) = (status s \<noteq> Running))"

fun consistent :: "activities \<Rightarrow> string \<Rightarrow> pipeline_state \<Rightarrow> bool" where
  "consistent a vt AwaitVuln = True"
| "consistent a vt (AwaitQueue m) = (runAgent a (vt @ ''-vuln'') = Inr m)"
| "consistent a vt (AwaitExploit m d) =
     (runAgent a (vt @ ''-vuln'') = Inr m \<and> checkExploitationQueue a vt = Inr d \<and> shouldExploit d)"
| "consistent a vt (Settled r) = (r = pipeline_outcome a vt)"

definition keeps_log :: "world \<Rightarrow> world \<Rightarrow> bool" where
  "keeps_log w w' = (console w' = console w \<and> pipelineResults w' = pipelineResults w)"

definition progress_kept :: "world \<Rightarrow> bool" where
  "progress_kept w =
     (\<forall>s \<in> set (observed w). prefix (completedAgents s) (completedAgents (state w)))"

section \<open>Concrete runs\<close>

definition sample_metrics :: AgentMetrics where
  "sample_metrics =
     \<lparr>durationMs = 900, inputTokens = Some 1200, outputTokens = Some 300,
      costUsd = Some (1 / 2), numTurns = Some 7, model = Some ''claude-sonnet''\<rparr>"

definition healthy_activities :: activities where
  "healthy_activities =
     \<lparr>logPhaseTransition = (\<lambda>phase event. None),
      runAgent = (\<lambda>name. Inr sample_metrics),
      checkExploitationQueue =
        (\<lambda>vt. Inr \<lparr>shouldExploit = (vt = ''injection''), vulnerabilityCount = 2\<rparr>),
      assembleReportActivity = None,
      injectReportMetadataActivity = None,
      logWorkflowComplete = (\<lambda>ws. None),
      now = (\<lambda>n. 1000 + 60000 * int n)\<rparr>"

definition xss_fails_activities :: activities where
  "xss_fails_activities =
     healthy_activities\<lparr>runAgent :=
       (\<lambda>name. if name = ''xss-vuln'' then Inl (ErrorObject ''xss agent crashed'')
                else Inr sample_metrics)\<rparr>"

definition recon_fails_activities :: activities where
  "recon_fails_activities =
     healthy_activities\<lparr>runAgent :=
       (\<lambda>name. if name = ''recon'' then Inl (ErrorObject ''recon agent crashed'')
                else Inr sample_metrics)\<rparr>"

definition notification_fails_activities :: activities where
  "notification_fails_activities =
     recon_fails_activities\<lparr>logWorkflowComplete :=
       (\<lambda>ws. Some (ErrorObject ''audit log unavailable''))\<rparr>"

definition example_state :: PipelineState where
  "example_state =
     \<lparr>status = Running, currentPhase = Some ''recon'', currentAgent = Some ''recon'',
      completedAgents = [''pre-recon''], failedAgent = None, error = None, startTime = 4000,
      agentMetrics =
        [(''pre-recon'', \<lparr>durationMs = 900, inputTokens = None, outputTokens = None,
                          costUsd = Some (1 / 2), numTurns = Some 7, model = None\<rparr>)],
      summary = None\<rparr>"

definition stale_progress :: PipelineProgress where
  "stale_progress = getProgress_handler example_state ''shannon-1'' 5000"

definition terminated_client :: temporal_client where
  "terminated_client =
     \<lparr>connect = None,
      query_getProgress = (\<lambda>wid. Inr stale_progress),
      describe = (\<lambda>wid. Inr \<lparr>status_name = Some ''TERMINATED'', description_startTime = Some 3990\<rparr>),
      date_now = 9000\<rparr>"

definition first_subscriber :: ClientSubscription where
  "first_subscriber = \<lparr>ws = 1, sub_workflowId = ''shannon-1'', lastProgress = None, logPosition = 0\<rparr>"

definition second_subscriber :: ClientSubscription where
  "second_subscriber = \<lparr>ws = 2, sub_workflowId = ''shannon-1'', lastProgress = None, logPosition = 0\<rparr>"

definition example_server :: server where
  "example_server =
     \<lparr>subscriptions = [''shannon-1'' \<mapsto> [first_subscriber, second_subscriber]],
      pollIntervals = Map.empty, lastPollErrors = Map.empty, sent = []\<rparr>"

section \<open>Properties of the retry-checkpoint executor\<close>

lemma attempt_loop_past:
  "max_retries opts < a \<Longrightarrow> attempt_loop eh opts a le evs = (Inl le, evs)"
  by (subst attempt_loop.simps) simp

lemma attempt_loop_next:
  "a \<le> max_retries opts \<Longrightarrow> attempt_step eh opts a le evs = NextAttempt le' evs'
     \<Longrightarrow> attempt_loop eh opts a le evs = attempt_loop eh opts (Suc a) le' evs'"
  by (subst attempt_loop.simps) simp

lemma attempt_loop_done:
  "a \<le> max_retries opts \<Longrightarrow> attempt_step eh opts a le evs = Done r evs'
     \<Longrightarrow> attempt_loop eh opts a le evs = (r, evs')"
  by (subst attempt_loop.simps) simp

lemma attempt_step_retryable_throw:
  assumes "run_single_attempt opts a = Inl e" and "isRetryableError eh e"
  shows "attempt_step eh opts a le evs =
     NextAttempt (Some e)
       (evs @ [Checkpoint a] @ audit_events opts [StartAgent a] @ [RunAttempt a]
            @ audit_events opts [EndAgent a False 0 (Some (message e)) (Some (a = max_retries opts))]
            @ (if a < max_retries opts
               then [Rollback ''retryable error cleanup'', Sleep (getRetryDelay eh e a)]
               else [Rollback ''final failure cleanup'']))"
  using assms by (simp add: attempt_step_def try_block_def catch_block_def Let_def)


lemma settled_audit [simp]:
  "settled opn (audit_events opts [StartAgent a] @ es) = settled opn es"
  "settled opn (audit_events opts [EndAgent a b c d f] @ es) = settled opn es"
  by (simp_all add: audit_events_def)

lemma filter_audit [simp]:
  "filter is_checkpoint (audit_events opts [StartAgent a]) = []"
  "filter is_checkpoint (audit_events opts [EndAgent a b c d f]) = []"
  "filter is_rollback (audit_events opts [StartAgent a]) = []"
  "filter is_rollback (audit_events opts [EndAgent a b c d f]) = []"
  "filter is_commit (audit_events opts [StartAgent a]) = []"
  "filter is_commit (audit_events opts [EndAgent a b c d f]) = []"
  "filter is_run_attempt (audit_events opts [StartAgent a]) = []"
  "filter is_run_attempt (audit_events opts [EndAgent a b c d f]) = []"
  "attempt_marks (audit_events opts [StartAgent a]) = []"
  "attempt_marks (audit_events opts [EndAgent a b c d f]) = []"
  by (simp_all add: audit_events_def attempt_marks_def)

lemma attempt_marks_append [simp]: "attempt_marks (xs @ ys) = attempt_marks xs @ attempt_marks ys"
  by (simp add: attempt_marks_def)

lemma attempt_marks_simps [simp]:
  "attempt_marks [] = []"
  "attempt_marks (Checkpoint n # es) = Checkpoint n # attempt_marks es"
  "attempt_marks (RunAttempt n # es) = RunAttempt n # attempt_marks es"
  "attempt_marks (Rollback r # es) = attempt_marks es"
  "attempt_marks (Sleep d # es) = attempt_marks es"
  "attempt_marks (CommitSuccess # es) = attempt_marks es"
  by (simp_all add: attempt_marks_def)

lemma attempt_step_validation_failure:
  assumes "run_single_attempt opts a = Inr r" and "success r"
    and "validate_output opts r = Inr False" and "a < max_retries opts"
  shows "attempt_step eh opts a le evs =
     NextAttempt (Some (validation_last_error r))
       (evs @ [Checkpoint a] @ audit_events opts [StartAgent a] @ [RunAttempt a]
            @ audit_events opts
                [EndAgent a False (case partialCost r of Some c \<Rightarrow> c | None \<Rightarrow> cost r)
                   (Some ''Output validation failed'') (Some False)]
            @ [Rollback ''validation failure''])"
  using assms by (simp add: attempt_step_def try_block_def Let_def)

lemma attempt_step_validation_exhausted:
  assumes "run_single_attempt opts a = Inr r" and "success r"
    and "validate_output opts r = Inr False" and "a = max_retries opts"
  shows "attempt_step eh opts a le evs =
     catch_block eh opts a (validation_exhausted_error opts)
       (evs @ [Checkpoint a] @ audit_events opts [StartAgent a] @ [RunAttempt a]
            @ audit_events opts
                [EndAgent a False (case partialCost r of Some c \<Rightarrow> c | None \<Rightarrow> cost r)
                   (Some ''Output validation failed'') (Some True)])"
  using assms by (simp add: attempt_step_def try_block_def Let_def)

lemma sleeps_append [simp]: "sleeps (xs @ ys) = sleeps xs @ sleeps ys"
  by (induction xs rule: sleeps.induct) simp_all

lemma sleeps_audit [simp]:
  "sleeps (audit_events opts [StartAgent a]) = []"
  "sleeps (audit_events opts [EndAgent a b c d f]) = []"
  by (simp_all add: audit_events_def)

lemma validation_exhausted_raises:
  assumes "run_single_attempt opts a = Inr r" and "success r"
    and "validate_output opts r = Inr False" and "a = max_retries opts"
  shows "\<exists>evs'. attempt_loop eh opts a le evs = (Inl (Some (validation_exhausted_error opts)), evs @ evs')
           \<and> sleeps evs' = []
           \<and> length (filter is_checkpoint evs') = 1
           \<and> length (filter is_rollback evs') = 1
           \<and> settled False evs'"
proof (cases "isRetryableError eh (validation_exhausted_error opts)")
  case True
  then have "attempt_step eh opts a le evs =
      NextAttempt (Some (validation_exhausted_error opts))
       (evs @ [Checkpoint a] @ audit_events opts [StartAgent a] @ [RunAttempt a]
            @ audit_events opts
                [EndAgent a False (case partialCost r of Some c \<Rightarrow> c | None \<Rightarrow> cost r)
                   (Some ''Output validation failed'') (Some True)]
            @ audit_events opts
                [EndAgent a False 0 (Some (message (validation_exhausted_error opts))) (Some True)]
            @ [Rollback ''final failure cleanup''])"
    using assms(4) attempt_step_validation_exhausted [OF assms, of eh le evs]
    by (simp add: catch_block_def)
  from attempt_loop_next [OF _ this] assms(4) show ?thesis
    by (simp add: attempt_loop_past)
next
  case False
  then have "attempt_step eh opts a le evs =
      Done (Inl (Some (validation_exhausted_error opts)))
       (evs @ [Checkpoint a] @ audit_events opts [StartAgent a] @ [RunAttempt a]
            @ audit_events opts
                [EndAgent a False (case partialCost r of Some c \<Rightarrow> c | None \<Rightarrow> cost r)
                   (Some ''Output validation failed'') (Some True)]
            @ audit_events opts
                [EndAgent a False 0 (Some (message (validation_exhausted_error opts))) (Some True)]
            @ [Rollback ''non-retryable error cleanup''])"
    using assms(4) attempt_step_validation_exhausted [OF assms, of eh le evs]
    by (simp add: catch_block_def)
  from attempt_loop_done [OF _ this] assms(4) show ?thesis
    by simp
qed

lemma attempt_step_reported_failure:
  assumes "run_single_attempt opts a = Inr r" and "\<not> success r"
  shows "attempt_step eh opts a le evs =
     NextAttempt le (evs @ [Checkpoint a] @ audit_events opts [StartAgent a] @ [RunAttempt a])"
  using assms by (simp add: attempt_step_def try_block_def Let_def)

lemma loop_all_reported_failures:
  assumes "\<forall>i. a \<le> i \<and> i \<le> max_retries opts \<longrightarrow>
             (\<exists>r. run_single_attempt opts i = Inr r \<and> \<not> success r)"
    and "a \<le> Suc (max_retries opts)"
  shows "\<exists>evs'. attempt_loop eh opts a le evs = (Inl le, evs @ evs')
           \<and> length (filter is_checkpoint evs') = Suc (max_retries opts) - a
           \<and> filter is_rollback evs' = []
           \<and> filter is_commit evs' = []
           \<and> sleeps evs' = []"
  using assms
proof (induction "Suc (max_retries opts) - a" arbitrary: a evs)
  case 0
  then have "max_retries opts < a" by simp
  then show ?case by (simp add: attempt_loop_past)
next
  case (Suc k)
  then have le: "a \<le> max_retries opts" by simp
  with Suc.prems(1) obtain r where r: "run_single_attempt opts a = Inr r" "\<not> success r"
    by blast
  let ?step = "[Checkpoint a] @ audit_events opts [StartAgent a] @ [RunAttempt a]"
  have k: "k = Suc (max_retries opts) - Suc a" using Suc.hyps(2) by simp
  have all: "\<forall>i. Suc a \<le> i \<and> i \<le> max_retries opts \<longrightarrow>
             (\<exists>r. run_single_attempt opts i = Inr r \<and> \<not> success r)"
    using Suc.prems(1) by auto
  from Suc.hyps(1) [OF k all, of "evs @ ?step"] le
  obtain evs' where h:
      "attempt_loop eh opts (Suc a) le (evs @ ?step) = (Inl le, (evs @ ?step) @ evs')"
      "length (filter is_checkpoint evs') = Suc (max_retries opts) - Suc a"
      "filter is_rollback evs' = []" "filter is_commit evs' = []" "sleeps evs' = []"
    by auto
  have loop: "attempt_loop eh opts a le evs = (Inl le, evs @ (?step @ evs'))"
    using attempt_loop_next [OF le attempt_step_reported_failure [OF r, of eh le evs]] h(1)
    by simp
  show ?case
    apply (rule exI [of _ "?step @ evs'"])
    using h(2-) loop le by simp
qed

lemma attempt_step_non_retryable_throw:
  assumes "run_single_attempt opts a = Inl e" and "\<not> isRetryableError eh e"
  shows "attempt_step eh opts a le evs =
     Done (Inl (Some e))
       (evs @ [Checkpoint a] @ audit_events opts [StartAgent a] @ [RunAttempt a]
            @ audit_events opts [EndAgent a False 0 (Some (message e)) (Some (a = max_retries opts))]
            @ [Rollback ''non-retryable error cleanup''])"
  using assms by (simp add: attempt_step_def try_block_def catch_block_def Let_def)

lemma step_handled_failure:
  assumes "handled_failure eh opts a" and "a < max_retries opts"
  shows "\<exists>le' evs'. attempt_step eh opts a le evs = NextAttempt le' (evs @ evs')
           \<and> one_failed_attempt a evs'"
proof (cases "run_single_attempt opts a")
  case (Inl e)
  with assms(1) have "isRetryableError eh e" by (simp add: handled_failure_def)
  from attempt_step_retryable_throw [OF Inl this, of le evs] assms(2) show ?thesis
    by (simp add: one_failed_attempt_def)
next
  case (Inr r)
  with assms(1) have s: "success r" by (simp add: handled_failure_def)
  show ?thesis
  proof (cases "validate_output opts r")
    case (Inl e)
    with assms(1) Inr have "isRetryableError eh e" by (simp add: handled_failure_def)
    with Inr Inl s assms(2) show ?thesis
      by (simp add: attempt_step_def try_block_def catch_block_def Let_def one_failed_attempt_def)
  next
    case (Inr passed)
    with assms(1) \<open>run_single_attempt opts a = Inr r\<close> have "validate_output opts r = Inr False"
      by (simp add: handled_failure_def)
    from attempt_step_validation_failure [OF \<open>run_single_attempt opts a = Inr r\<close> s this assms(2), of eh le evs]
    show ?thesis by (simp add: one_failed_attempt_def)
  qed
qed

lemma last_handled_failure:
  assumes "handled_failure eh opts a" and "a = max_retries opts"
  shows "\<exists>evs'. attempt_loop eh opts a le evs = (Inl (Some (attempt_error opts a)), evs @ evs')
           \<and> one_failed_attempt a evs'"
proof -
  have le: "a \<le> max_retries opts" using assms(2) by simp
  have past: "max_retries opts < Suc a" using assms(2) by simp
  have caught: "\<exists>evs'. attempt_loop eh opts a le evs = (Inl (Some e), evs @ evs')
           \<and> one_failed_attempt a evs'"
    if st: "attempt_step eh opts a le evs = catch_block eh opts a e
              (evs @ [Checkpoint a] @ audit_events opts [StartAgent a] @ [RunAttempt a] @ audit_events opts [EndAgent a b c d f])"
    for e b c d f
  proof (cases "isRetryableError eh e")
    case True
    with st assms(2) have "attempt_step eh opts a le evs = NextAttempt (Some e)
              (evs @ [Checkpoint a] @ audit_events opts [StartAgent a] @ [RunAttempt a] @ audit_events opts [EndAgent a b c d f]
                @ audit_events opts [EndAgent a False 0 (Some (message e)) (Some True)]
                @ [Rollback ''final failure cleanup''])"
      by (simp add: catch_block_def)
    from attempt_loop_next [OF le this] past show ?thesis
      by (simp add: attempt_loop_past one_failed_attempt_def)
  next
    case False
    with st assms(2) have "attempt_step eh opts a le evs = Done (Inl (Some e))
              (evs @ [Checkpoint a] @ audit_events opts [StartAgent a] @ [RunAttempt a] @ audit_events opts [EndAgent a b c d f]
                @ audit_events opts [EndAgent a False 0 (Some (message e)) (Some True)]
                @ [Rollback ''non-retryable error cleanup''])"
      by (simp add: catch_block_def)
    from attempt_loop_done [OF le this] show ?thesis
      by (simp add: one_failed_attempt_def)
  qed
  show ?thesis
  proof (cases "run_single_attempt opts a")
    case (Inl e)
    with assms(1) have "isRetryableError eh e" by (simp add: handled_failure_def)
    from attempt_loop_next [OF le attempt_step_retryable_throw [OF Inl this, of le evs]] past assms(2) Inl
    show ?thesis
      by (simp add: attempt_loop_past one_failed_attempt_def attempt_error_def)
  next
    case (Inr r)
    with assms(1) have s: "success r" by (simp add: handled_failure_def)
    show ?thesis
    proof (cases "validate_output opts r")
      case (Inl e)
      with assms(1) Inr have re: "isRetryableError eh e" by (simp add: handled_failure_def)
      with Inr Inl s assms(2) have "attempt_step eh opts a le evs = NextAttempt (Some e)
              (evs @ [Checkpoint a] @ audit_events opts [StartAgent a] @ [RunAttempt a]
                @ audit_events opts [EndAgent a False 0 (Some (message e)) (Some True)]
                @ [Rollback ''final failure cleanup''])"
        by (simp add: attempt_step_def try_block_def catch_block_def Let_def)
      from attempt_loop_next [OF le this] past Inl Inr show ?thesis
        by (simp add: attempt_loop_past one_failed_attempt_def attempt_error_def)
    next
      case (Inr passed)
      with assms(1) \<open>run_single_attempt opts a = Inr r\<close> have v: "validate_output opts r = Inr False"
        by (simp add: handled_failure_def)
      from caught [OF attempt_step_validation_exhausted [OF \<open>run_single_attempt opts a = Inr r\<close> s v assms(2), of eh le evs]]
      show ?thesis
        using \<open>run_single_attempt opts a = Inr r\<close> v by (simp add: attempt_error_def)
    qed
  qed
qed

lemma loop_all_retryable:
  assumes "\<forall>i. a \<le> i \<and> i \<le> max_retries opts \<longrightarrow> handled_failure eh opts i"
    and "a \<le> max_retries opts"
  shows "\<exists>evs'. attempt_loop eh opts a le evs =
             (Inl (Some (attempt_error opts (max_retries opts))), evs @ evs')
           \<and> length (filter is_checkpoint evs') = Suc (max_retries opts) - a
           \<and> length (filter is_rollback evs') = Suc (max_retries opts) - a
           \<and> filter is_commit evs' = []
           \<and> attempt_marks evs' =
               concat (map (\<lambda>i. [Checkpoint i, RunAttempt i]) [a..<Suc (max_retries opts)])
           \<and> (\<forall>es. settled False (evs' @ es) = settled False es)"
  using assms
proof (induction "max_retries opts - a" arbitrary: a le evs)
  case 0
  then have a: "a = max_retries opts" by simp
  with "0.prems"(1) have "handled_failure eh opts a" by simp
  from last_handled_failure [OF this a, of le evs] a show ?case
    by (auto simp add: one_failed_attempt_def upt_rec)
next
  case (Suc k)
  then have lt: "a < max_retries opts" by simp
  with Suc.prems(1) have "handled_failure eh opts a" by simp
  from step_handled_failure [OF this lt, of le evs]
  obtain le' step where st: "attempt_step eh opts a le evs = NextAttempt le' (evs @ step)"
      "one_failed_attempt a step"
    by blast
  have k: "k = max_retries opts - Suc a" using Suc.hyps(2) by simp
  have all: "\<forall>i. Suc a \<le> i \<and> i \<le> max_retries opts \<longrightarrow> handled_failure eh opts i"
    using Suc.prems(1) by auto
  from Suc.hyps(1) [OF k all, of le' "evs @ step"] lt
  obtain evs' where r:
      "attempt_loop eh opts (Suc a) le' (evs @ step) =
         (Inl (Some (attempt_error opts (max_retries opts))), (evs @ step) @ evs')"
      "length (filter is_checkpoint evs') = Suc (max_retries opts) - Suc a"
      "length (filter is_rollback evs') = Suc (max_retries opts) - Suc a"
      "filter is_commit evs' = []"
      "attempt_marks evs' = concat (map (\<lambda>i. [Checkpoint i, RunAttempt i]) [Suc a..<Suc (max_retries opts)])"
      "\<forall>es. settled False (evs' @ es) = settled False es"
    by auto
  have loop: "attempt_loop eh opts a le evs =
      (Inl (Some (attempt_error opts (max_retries opts))), evs @ (step @ evs'))"
    using attempt_loop_next [OF _ st(1)] lt r(1) by simp
  have upt: "[a..<Suc (max_retries opts)] = a # [Suc a..<Suc (max_retries opts)]"
    using lt by (simp add: upt_rec)
  have sett: "\<forall>es. settled False ((step @ evs') @ es) = settled False es"
    using st(2) r(6) by (simp add: one_failed_attempt_def)
  show ?case
    apply (rule exI [of _ "step @ evs'"])
    using r(2,3,4,5) sett loop lt upt st(2) by (simp add: one_failed_attempt_def)
qed

lemmas example_defs =
  recon_options_def invalid_key_options_def rate_limited_options_def validation_fails_once_def
  runner_throws_once_def validation_never_passes_def runner_reports_failure_def
  ok_result_def failed_result_def model_error_handling_def

lemmas classifier_defs =
  isRetryableError_model_def toLowerCase_def lower_char_def
  NON_RETRYABLE_PATTERNS_def RETRYABLE_PATTERNS_def

text \<open>
  The branches the loop has do roll back. With an attempt budget N >= 1, if each of the
  N attempts is a handled failure, the executor raises once, the error of attempt N; it
  takes exactly N checkpoints, one before each run of the unit and in order, rolls the
  workspace back exactly N times, commits nothing, and every checkpoint is closed by a
  rollback before the next one is taken and before the executor raises.
\<close>

theorem handled_failures_are_rolled_back:
  assumes "1 \<le> max_retries opts"
    and "\<forall>i. 1 \<le> i \<and> i \<le> max_retries opts \<longrightarrow> handled_failure eh opts i"
  shows "\<exists>evs. run_claude_prompt_with_retry eh opts =
                 (Inl (Some (attempt_error opts (max_retries opts))), evs)
           \<and> length (filter is_checkpoint evs) = max_retries opts
           \<and> length (filter is_rollback evs) = max_retries opts
           \<and> filter is_commit evs = []
           \<and> attempt_marks evs =
               concat (map (\<lambda>i. [Checkpoint i, RunAttempt i]) [1..<Suc (max_retries opts)])
           \<and> settled False evs"
proof -
  from loop_all_retryable [of 1 opts eh None "[]"] assms
  obtain evs' where r:
      "attempt_loop eh opts 1 None [] = (Inl (Some (attempt_error opts (max_retries opts))), [] @ evs')"
      "length (filter is_checkpoint evs') = Suc (max_retries opts) - 1"
      "length (filter is_rollback evs') = Suc (max_retries opts) - 1"
      "filter is_commit evs' = []"
      "attempt_marks evs' = concat (map (\<lambda>i. [Checkpoint i, RunAttempt i]) [1..<Suc (max_retries opts)])"
      "\<forall>es. settled False (evs' @ es) = settled False es"
    by auto
  from r(6) have "settled False (evs' @ []) = settled False []" by blast
  then have "settled False evs'" by simp
  with r show ?thesis
    by (auto simp add: run_claude_prompt_with_retry_def)
qed

theorem handled_failures_are_rolled_back_example:
  "\<exists>evs. run_claude_prompt_with_retry model_error_handling rate_limited_options =
            (Inl (Some (JsError ''Rate limit exceeded'')), evs)
         \<and> length (filter is_checkpoint evs) = 2
         \<and> length (filter is_rollback evs) = 2
         \<and> settled False evs"
proof -
  have h1: "1 \<le> max_retries rate_limited_options"
    by (simp add: example_defs)
  have h2: "\<forall>i. 1 \<le> i \<and> i \<le> max_retries rate_limited_options \<longrightarrow>
           handled_failure model_error_handling rate_limited_options i"
    by (simp add: handled_failure_def example_defs classifier_defs)
  have m: "max_retries rate_limited_options = 2"
    and r: "attempt_error rate_limited_options 2 = JsError ''Rate limit exceeded''"
    by (simp_all add: attempt_error_def example_defs)
  from handled_failures_are_rolled_back [OF h1 h2] show ?thesis
    unfolding m r by auto
qed

text \<open>
  C5. When the runner raises on attempt 1 an error that the classifier calls
  non-retryable, the executor takes one checkpoint, runs the unit once, rolls the
  workspace back once, never sleeps and re-raises that very error, whatever the attempt
  budget (at least 1).
\<close>

theorem non_retryable_error_raises_immediately:
  assumes "1 \<le> max_retries opts"
    and "run_single_attempt opts 1 = Inl e"
    and "\<not> isRetryableError eh e"
  shows "run_claude_prompt_with_retry eh opts =
           (Inl (Some e),
            [Checkpoint 1] @ audit_events opts [StartAgent 1] @ [RunAttempt 1]
              @ audit_events opts [EndAgent 1 False 0 (Some (message e)) (Some (1 = max_retries opts))]
              @ [Rollback ''non-retryable error cleanup''])
         \<and> length (filter is_checkpoint (snd (run_claude_prompt_with_retry eh opts))) = 1
         \<and> length (filter is_rollback (snd (run_claude_prompt_with_retry eh opts))) = 1
         \<and> length (filter is_run_attempt (snd (run_claude_prompt_with_retry eh opts))) = 1
         \<and> sleeps (snd (run_claude_prompt_with_retry eh opts)) = []"
proof -
  have run: "run_claude_prompt_with_retry eh opts =
           (Inl (Some e),
            [Checkpoint 1] @ audit_events opts [StartAgent 1] @ [RunAttempt 1]
              @ audit_events opts [EndAgent 1 False 0 (Some (message e)) (Some (1 = max_retries opts))]
              @ [Rollback ''non-retryable error cleanup''])"
    using attempt_loop_done [OF _ attempt_step_non_retryable_throw [OF assms(2,3), of None "[]"]] assms(1)
    by (simp add: run_claude_prompt_with_retry_def)
  show ?thesis
    unfolding run by simp
qed

theorem non_retryable_error_raises_immediately_witness:
  "run_claude_prompt_with_retry model_error_handling invalid_key_options =
     (Inl (Some (JsError ''Invalid API key provided'')),
      [Checkpoint 1, StartAgent 1, RunAttempt 1,
       EndAgent 1 False 0 (Some ''Invalid API key provided'') (Some False),
       Rollback ''non-retryable error cleanup''])"
proof -
  have h1: "1 \<le> max_retries invalid_key_options"
    by (simp add: example_defs)
  have h2: "run_single_attempt invalid_key_options 1 = Inl (JsError ''Invalid API key provided'')"
    by (simp add: example_defs)
  have h3: "\<not> isRetryableError model_error_handling (JsError ''Invalid API key provided'')"
    by (simp add: example_defs classifier_defs)
  from non_retryable_error_raises_immediately [OF h1 h2 h3] show ?thesis
    by (simp add: audit_events_def has_audit_session_def example_defs)
qed

text \<open>
  C6 as stated fails: after a validation failure with attempts remaining the loop
  rolls back and continues at once, while a retryable exception at the same attempt
  number sleeps for \<open>getRetryDelay\<close> first.
\<close>

theorem validation_failure_backoff_counterexample:
  "run_claude_prompt_with_retry model_error_handling validation_fails_once =
     (Inr (ok_result ''done''),
      [Checkpoint 1, StartAgent 1, RunAttempt 1,
       EndAgent 1 False (1 / 4) (Some ''Output validation failed'') (Some False),
       Rollback ''validation failure'',
       Checkpoint 2, StartAgent 2, RunAttempt 2, EndAgent 2 True (1 / 4) None None, CommitSuccess])
   \<and> run_claude_prompt_with_retry model_error_handling runner_throws_once =
     (Inr (ok_result ''done''),
      [Checkpoint 1, StartAgent 1, RunAttempt 1,
       EndAgent 1 False 0 (Some ''Network error'') (Some False),
       Rollback ''retryable error cleanup'', Sleep 2000,
       Checkpoint 2, StartAgent 2, RunAttempt 2, EndAgent 2 True (1 / 4) None None, CommitSuccess])
   \<and> sleeps (snd (run_claude_prompt_with_retry model_error_handling validation_fails_once)) = []
   \<and> sleeps (snd (run_claude_prompt_with_retry model_error_handling runner_throws_once)) = [2000]"
proof -
  have a: "run_claude_prompt_with_retry model_error_handling validation_fails_once =
     (Inr (ok_result ''done''),
      [Checkpoint 1, StartAgent 1, RunAttempt 1,
       EndAgent 1 False (1 / 4) (Some ''Output validation failed'') (Some False),
       Rollback ''validation failure'',
       Checkpoint 2, StartAgent 2, RunAttempt 2, EndAgent 2 True (1 / 4) None None, CommitSuccess])"
    by code_simp
  have b: "run_claude_prompt_with_retry model_error_handling runner_throws_once =
     (Inr (ok_result ''done''),
      [Checkpoint 1, StartAgent 1, RunAttempt 1,
       EndAgent 1 False 0 (Some ''Network error'') (Some False),
       Rollback ''retryable error cleanup'', Sleep 2000,
       Checkpoint 2, StartAgent 2, RunAttempt 2, EndAgent 2 True (1 / 4) None None, CommitSuccess])"
    by code_simp
  show ?thesis unfolding a b by simp
qed


text \<open>
  C6, amended. When a successful result fails validation at attempt a: if attempts
  remain, the audit record carries the signature "Output validation failed", the
  workspace is rolled back and attempt a + 1 starts with no backoff delay at all; if a
  is the last attempt, the executor rolls back once and raises the terminal
  validation-exhausted error.
\<close>

theorem validation_failure_retries_without_backoff:
  assumes "run_single_attempt opts a = Inr r" and "success r"
    and "validate_output opts r = Inr False" and "a \<le> max_retries opts"
  shows "(a < max_retries opts \<longrightarrow>
            attempt_loop eh opts a le evs =
              attempt_loop eh opts (Suc a) (Some (validation_last_error r))
                (evs @ [Checkpoint a] @ audit_events opts [StartAgent a] @ [RunAttempt a]
                   @ audit_events opts
                       [EndAgent a False (case partialCost r of Some c \<Rightarrow> c | None \<Rightarrow> cost r)
                          (Some ''Output validation failed'') (Some False)]
                   @ [Rollback ''validation failure'']))
       \<and> (a = max_retries opts \<longrightarrow>
            (\<exists>evs'. attempt_loop eh opts a le evs =
                       (Inl (Some (validation_exhausted_error opts)), evs @ evs')
                   \<and> sleeps evs' = []
                   \<and> length (filter is_checkpoint evs') = 1
                   \<and> length (filter is_rollback evs') = 1
                   \<and> settled False evs'))"
proof (intro conjI impI)
  assume lt: "a < max_retries opts"
  from attempt_loop_next [OF assms(4) attempt_step_validation_failure [OF assms(1,2,3) lt, of eh le evs]]
  show "attempt_loop eh opts a le evs =
              attempt_loop eh opts (Suc a) (Some (validation_last_error r))
                (evs @ [Checkpoint a] @ audit_events opts [StartAgent a] @ [RunAttempt a]
                   @ audit_events opts
                       [EndAgent a False (case partialCost r of Some c \<Rightarrow> c | None \<Rightarrow> cost r)
                          (Some ''Output validation failed'') (Some False)]
                   @ [Rollback ''validation failure''])" .
next
  assume "a = max_retries opts"
  from validation_exhausted_raises [OF assms(1,2,3) this, of eh le evs]
  show "\<exists>evs'. attempt_loop eh opts a le evs =
                       (Inl (Some (validation_exhausted_error opts)), evs @ evs')
                   \<and> sleeps evs' = []
                   \<and> length (filter is_checkpoint evs') = 1
                   \<and> length (filter is_rollback evs') = 1
                   \<and> settled False evs'" .
qed

theorem validation_failure_retries_without_backoff_witness:
  "run_claude_prompt_with_retry model_error_handling validation_never_passes =
     attempt_loop model_error_handling validation_never_passes 2
       (Some (JsError ''Output validation failed''))
       [Checkpoint 1, StartAgent 1, RunAttempt 1,
        EndAgent 1 False (1 / 4) (Some ''Output validation failed'') (Some False),
        Rollback ''validation failure'']
   \<and> (\<exists>evs'. attempt_loop model_error_handling validation_never_passes 2
                (Some (JsError ''Output validation failed''))
                [Checkpoint 1, StartAgent 1, RunAttempt 1,
                 EndAgent 1 False (1 / 4) (Some ''Output validation failed'') (Some False),
                 Rollback ''validation failure'']
              = (Inl (Some (validation_exhausted_error validation_never_passes)),
                 [Checkpoint 1, StartAgent 1, RunAttempt 1,
                  EndAgent 1 False (1 / 4) (Some ''Output validation failed'') (Some False),
                  Rollback ''validation failure''] @ evs')
            \<and> sleeps evs' = [] \<and> length (filter is_rollback evs') = 1)"
proof -
  have r: "run_single_attempt validation_never_passes n = Inr (ok_result ''draft'')" for n
    by (simp add: example_defs)
  have s: "success (ok_result ''draft'')"
    by (simp add: example_defs)
  have v: "validate_output validation_never_passes (ok_result ''draft'') = Inr False"
    by (simp add: example_defs)
  have m: "max_retries validation_never_passes = 2"
    by (simp add: example_defs)
  have le1: "1 \<le> max_retries validation_never_passes" and le2: "2 \<le> max_retries validation_never_passes"
    by (simp_all add: m)
  have au: "has_audit_session validation_never_passes"
    by (simp add: has_audit_session_def example_defs)
  from validation_failure_retries_without_backoff [OF r s v le1, of model_error_handling None "[]"]
  have first: "run_claude_prompt_with_retry model_error_handling validation_never_passes =
     attempt_loop model_error_handling validation_never_passes 2
       (Some (JsError ''Output validation failed''))
       [Checkpoint 1, StartAgent 1, RunAttempt 1,
        EndAgent 1 False (1 / 4) (Some ''Output validation failed'') (Some False),
        Rollback ''validation failure'']"
    by (simp add: m au audit_events_def run_claude_prompt_with_retry_def validation_last_error_def
        ok_result_def numeral_2_eq_2)
  from validation_failure_retries_without_backoff [OF r s v le2, of model_error_handling]
  have second: "\<exists>evs'. attempt_loop model_error_handling validation_never_passes 2 le evs =
                       (Inl (Some (validation_exhausted_error validation_never_passes)), evs @ evs')
                   \<and> sleeps evs' = [] \<and> length (filter is_rollback evs') = 1" for le evs
    by (auto simp add: m)
  from first second show ?thesis by blast
qed

lemma unclosed_checkpoint:
  "filter is_rollback evs = [] \<Longrightarrow> filter is_commit evs = [] \<Longrightarrow>
   \<not> settled True evs \<and> (filter is_checkpoint evs \<noteq> [] \<longrightarrow> \<not> settled False evs)"
proof (induction evs)
  case Nil
  show ?case by simp
next
  case (Cons e evs)
  then show ?case by (cases e) (auto split: if_splits)
qed

text \<open>
  C2 fails on the code for a unit of work whose runner reports a failed attempt in its
  result (\<open>success = false\<close>, as \<open>runClaudePrompt\<close> does for every error it catches)
  instead of raising. The \<open>try\<close> block has no branch for such a result: with a budget
  N >= 1 and N such attempts the executor takes N checkpoints, rolls back never, commits
  and sleeps never, leaves a checkpoint open, and its final \<open>throw last_error\<close> throws
  \<open>undefined\<close>, not the last attempt's error.
\<close>

theorem reported_failures_are_not_rolled_back:
  assumes "1 \<le> max_retries opts"
    and "\<forall>i. 1 \<le> i \<and> i \<le> max_retries opts \<longrightarrow>
             (\<exists>r. run_single_attempt opts i = Inr r \<and> \<not> success r)"
  shows "\<exists>evs. run_claude_prompt_with_retry eh opts = (Inl None, evs)
           \<and> length (filter is_checkpoint evs) = max_retries opts
           \<and> filter is_rollback evs = []
           \<and> filter is_commit evs = []
           \<and> sleeps evs = []
           \<and> \<not> settled False evs"
proof -
  from loop_all_reported_failures [OF assms(2), of eh None "[]"]
  obtain evs where r: "attempt_loop eh opts 1 None [] = (Inl None, evs)"
      "length (filter is_checkpoint evs) = max_retries opts"
      "filter is_rollback evs = []" "filter is_commit evs = []" "sleeps evs = []"
    by auto
  from r(2) assms(1) have "filter is_checkpoint evs \<noteq> []" by auto
  with unclosed_checkpoint [OF r(3,4)] have "\<not> settled False evs" by simp
  with r show ?thesis
    by (auto simp add: run_claude_prompt_with_retry_def)
qed

theorem reported_failures_are_not_rolled_back_witness:
  "run_claude_prompt_with_retry model_error_handling runner_reports_failure =
     (Inl None, [Checkpoint 1, StartAgent 1, RunAttempt 1, Checkpoint 2, StartAgent 2, RunAttempt 2])
   \<and> \<not> settled False (snd (run_claude_prompt_with_retry model_error_handling runner_reports_failure))"
proof -
  have h1: "1 \<le> max_retries runner_reports_failure"
    by (simp add: example_defs)
  have h2: "\<forall>i. 1 \<le> i \<and> i \<le> max_retries runner_reports_failure \<longrightarrow>
             (\<exists>r. run_single_attempt runner_reports_failure i = Inr r \<and> \<not> success r)"
    by (simp add: example_defs)
  from reported_failures_are_not_rolled_back [OF h1 h2, of model_error_handling]
  have "fst (run_claude_prompt_with_retry model_error_handling runner_reports_failure) = Inl None"
    and "\<not> settled False (snd (run_claude_prompt_with_retry model_error_handling runner_reports_failure))"
    by auto
  moreover have "snd (run_claude_prompt_with_retry model_error_handling runner_reports_failure) =
     [Checkpoint 1, StartAgent 1, RunAttempt 1, Checkpoint 2, StartAgent 2, RunAttempt 2]"
    by code_simp
  ultimately show ?thesis
    by (simp add: prod_eq_iff)
qed

section \<open>Properties of the pipeline workflow\<close>

lemma calm_refl [simp]: "calm w w"
  by (simp add: calm_def)

lemma calm_trans: "calm w1 w2 \<Longrightarrow> calm w2 w3 \<Longrightarrow> calm w1 w3"
  unfolding calm_def by (elim conjE exE) (simp, blast)

lemma calm_suspend [simp]: "calm w (suspend w)"
  by (simp add: calm_def suspend_def)

lemma calm_record_agent [simp]: "calm w (modify (record_agent name m) w)"
  by (simp add: calm_def modify_def record_agent_def)

lemma calm_position [simp]:
  "calm w (modify (\<lambda>st. st\<lparr>currentPhase := p, currentAgent := c\<rparr>) w)"
  by (simp add: calm_def modify_def)

lemma calm_then_suspend: "calm w w' \<Longrightarrow> calm w (suspend w')"
  by (erule calm_trans) simp

lemma calm_then_record: "calm w w' \<Longrightarrow> calm w (modify (record_agent name m) w')"
  by (erule calm_trans) simp

lemma pipeline_step_calm: "calm w (snd (run_vuln_exploit_pipeline a vt st w))"
  by (cases st) (auto split: sum.splits intro: calm_then_suspend calm_then_record)

lemma step_at_calm: "calm (snd pw) (snd (step_at a i pw))"
  using pipeline_step_calm [of "snd pw" a "fst (fst pw ! i)" "snd (fst pw ! i)"]
  by (cases pw) (simp add: step_at_def Let_def split_beta)

lemma run_schedule_calm: "calm (snd pw) (snd (run_schedule a sched pw))"
proof (induction sched arbitrary: pw)
  case Nil
  show ?case by (simp add: run_schedule_def)
next
  case (Cons i sched)
  have "calm (snd pw) (snd (step_at a i pw))" by (rule step_at_calm)
  moreover have "calm (snd (step_at a i pw)) (snd (run_schedule a sched (step_at a i pw)))"
    by (rule Cons.IH)
  ultimately show ?case
    by (simp add: run_schedule_def calm_trans)
qed

lemma settle_remaining_calm: "calm w (snd (settle_remaining a ps w))"
proof (induction ps arbitrary: w)
  case Nil
  show ?case by simp
next
  case (Cons p ps)
  obtain vt st where p: "p = (vt, st)" by (cases p)
  let ?r1 = "run_vuln_exploit_pipeline a vt st w"
  let ?r2 = "run_vuln_exploit_pipeline a vt (fst ?r1) (snd ?r1)"
  let ?r3 = "run_vuln_exploit_pipeline a vt (fst ?r2) (snd ?r2)"
  have "calm w (snd ?r1)" by (rule pipeline_step_calm)
  moreover have "calm (snd ?r1) (snd ?r2)" by (rule pipeline_step_calm)
  moreover have "calm (snd ?r2) (snd ?r3)" by (rule pipeline_step_calm)
  moreover have "calm (snd ?r3) (snd (settle_remaining a ps (snd ?r3)))" by (rule Cons.IH)
  ultimately have "calm w (snd (settle_remaining a ps (snd ?r3)))"
    by (blast intro: calm_trans)
  then show ?case by (simp add: p split_beta)
qed

lemma pre_recon_calm: "calm w (snd (execute_pre_recon_phase a w))"
  by (auto simp add: execute_pre_recon_phase_def Let_def split: option.splits sum.splits
      intro!: calm_then_suspend calm_then_record)

lemma recon_calm: "calm w (snd (execute_recon_phase a w))"
  by (auto simp add: execute_recon_phase_def Let_def split: option.splits sum.splits
      intro!: calm_then_suspend calm_then_record)

lemma reporting_calm: "calm w (snd (execute_reporting_phase a w))"
  by (auto simp add: execute_reporting_phase_def Let_def split: option.splits sum.splits
      intro!: calm_then_suspend calm_then_record)

lemma calm_console_results [simp]:
  "calm w (w\<lparr>pipelineResults := r, console := c\<rparr>)"
  by (simp add: calm_def)

lemma vulnerability_exploitation_calm:
  "calm w (snd (execute_vulnerability_exploitation_phase a sched w))"
proof (cases "logPhaseTransition a ''vulnerability-exploitation'' ''start''")
  case (Some e)
  then show ?thesis
    by (auto simp add: execute_vulnerability_exploitation_phase_def Let_def
        intro!: calm_then_suspend)
next
  case None
  let ?w1 = "suspend (modify (\<lambda>st. st\<lparr>currentPhase := Some ''vulnerability-exploitation'',
                                          currentAgent := Some ''pipelines''\<rparr>) w)"
  let ?r1 = "run_schedule a sched (map (\<lambda>vt. (vt, AwaitVuln)) vuln_types, suspend ?w1)"
  let ?r2 = "settle_remaining a (fst ?r1) (snd ?r1)"
  have c1: "calm w (suspend ?w1)"
    by (intro calm_then_suspend) simp
  have c2: "calm (suspend ?w1) (snd ?r1)"
    using run_schedule_calm [of "(map (\<lambda>vt. (vt, AwaitVuln)) vuln_types, suspend ?w1)" a sched]
    by simp
  have c3: "calm (snd ?r1) (snd ?r2)"
    by (rule settle_remaining_calm)
  have c4: "calm w (snd ?r2)"
    using c1 c2 c3 by (blast intro: calm_trans)
  have "calm (snd ?r2)
          (suspend (modify (\<lambda>st. st\<lparr>currentPhase := Some ''exploitation'', currentAgent := None\<rparr>)
             ((snd ?r2)\<lparr>pipelineResults := r, console := c\<rparr>)))" for r c
    by (intro calm_then_suspend) (simp add: calm_def modify_def)
  with c4 have "calm w
          (suspend (modify (\<lambda>st. st\<lparr>currentPhase := Some ''exploitation'', currentAgent := None\<rparr>)
             ((snd ?r2)\<lparr>pipelineResults := r, console := c\<rparr>)))" for r c
    by (blast intro: calm_trans)
  then show ?thesis
    using None
    by (simp add: execute_vulnerability_exploitation_phase_def Let_def split_beta)
qed

lemma run_phases_calm: "calm w (snd (run_phases a sched w))"
proof -
  let ?p1 = "execute_pre_recon_phase a w"
  let ?p2 = "execute_recon_phase a (snd ?p1)"
  let ?p3 = "execute_vulnerability_exploitation_phase a sched (snd ?p2)"
  let ?p4 = "execute_reporting_phase a (snd ?p3)"
  have c1: "calm w (snd ?p1)" by (rule pre_recon_calm)
  have c2: "calm w (snd ?p2)" using c1 recon_calm by (blast intro: calm_trans)
  have c3: "calm w (snd ?p3)" using c2 vulnerability_exploitation_calm by (blast intro: calm_trans)
  have c4: "calm w (snd ?p4)" using c3 reporting_calm by (blast intro: calm_trans)
  show ?thesis
    using c1 c2 c3 c4
    by (auto simp add: run_phases_def split: prod.splits option.splits)
qed

lemma run_phases_from_start:
  assumes "run_phases a sched (initial_world a) = (r, w)"
  shows "status (state w) = Running" and "summary (state w) = None" and "notified w = []"
    and "\<forall>s \<in> set (observed w). status s = Running \<and> summary s = None"
  using run_phases_calm [of "initial_world a" a sched] assms
  by (auto simp add: calm_def initial_world_def initial_state_def)

lemma catch_workflow_error_invariant:
  assumes "\<forall>s \<in> set (observed w). terminal_invariant s"
  shows "\<forall>s \<in> set (observed (snd (catch_workflow_error a e w))). terminal_invariant s"
    and "status (state (snd (catch_workflow_error a e w))) = Failed"
    and "summary (state (snd (catch_workflow_error a e w))) \<noteq> None"
  using assms
  by (auto simp add: catch_workflow_error_def build_workflow_summary_def Let_def modify_def
      suspend_def terminal_invariant_def split: option.splits)

lemma pre_recon_position:
  "execute_pre_recon_phase a w0 = (r, w) \<Longrightarrow>
   currentPhase (state w) = Some ''pre-recon'' \<and> currentAgent (state w) = Some ''pre-recon''"
  by (auto simp add: execute_pre_recon_phase_def Let_def suspend_def modify_def record_agent_def
      split: option.splits sum.splits)

lemma recon_position:
  "execute_recon_phase a w0 = (r, w) \<Longrightarrow>
   currentPhase (state w) = Some ''recon'' \<and> currentAgent (state w) = Some ''recon''"
  by (auto simp add: execute_recon_phase_def Let_def suspend_def modify_def record_agent_def
      split: option.splits sum.splits)

lemma reporting_position:
  "execute_reporting_phase a w0 = (r, w) \<Longrightarrow>
   currentPhase (state w) = Some ''reporting'' \<and> currentAgent (state w) = Some ''report''"
  by (auto simp add: execute_reporting_phase_def Let_def suspend_def modify_def record_agent_def
      split: option.splits sum.splits)

lemma vulnerability_exploitation_position:
  "execute_vulnerability_exploitation_phase a sched w0 = (r, w) \<Longrightarrow>
   currentPhase (state w) \<in> {Some ''vulnerability-exploitation'', Some ''exploitation''}"
  by (auto simp add: execute_vulnerability_exploitation_phase_def Let_def suspend_def modify_def
      split_beta split: option.splits)

lemma ordered_phase_unit:
  assumes "run_phases a sched w0 = (Some e, w)"
    and "currentPhase (state w) \<in> {Some ''pre-recon'', Some ''recon'', Some ''reporting''}"
  shows "(currentPhase (state w), currentAgent (state w)) \<in>
           {(Some ''pre-recon'', Some ''pre-recon''), (Some ''recon'', Some ''recon''),
            (Some ''reporting'', Some ''report'')}"
proof -
  obtain r1 w1 where p1: "execute_pre_recon_phase a w0 = (r1, w1)"
    by (cases "execute_pre_recon_phase a w0")
  obtain r2 w2 where p2: "execute_recon_phase a w1 = (r2, w2)"
    by (cases "execute_recon_phase a w1")
  obtain r3 w3 where p3: "execute_vulnerability_exploitation_phase a sched w2 = (r3, w3)"
    by (cases "execute_vulnerability_exploitation_phase a sched w2")
  obtain r4 w4 where p4: "execute_reporting_phase a w3 = (r4, w4)"
    by (cases "execute_reporting_phase a w3")
  from assms(1) p1 p2 p3 p4
  consider "w = w1" | "w = w2" | "w = w3" | "w = w4"
    by (auto simp add: run_phases_def split: option.splits)
  then show ?thesis
  proof cases
    case 1
    with pre_recon_position [OF p1] show ?thesis by simp
  next
    case 2
    with recon_position [OF p2] show ?thesis by simp
  next
    case 3
    with vulnerability_exploitation_position [OF p3] assms(2) show ?thesis by auto
  next
    case 4
    with reporting_position [OF p4] show ?thesis by simp
  qed
qed

lemma catch_workflow_error_outcome:
  "\<exists>wf ws. catch_workflow_error a e w =
                   (Inl (case logWorkflowComplete a ws of None \<Rightarrow> e | Some e' \<Rightarrow> e'), wf)
           \<and> status (state wf) = Failed
           \<and> failedAgent (state wf) = currentAgent (state w)
           \<and> error (state wf) = Some (error_message e)
           \<and> summary (state wf) = Some (computeSummary (state w) (now a (awaits w)))
           \<and> completedAgents (state wf) = completedAgents (state w)
           \<and> observed wf = observed w @ [state wf]
           \<and> notified wf = notified w @ [ws]
           \<and> ws_status ws = Failed
           \<and> ws_error ws = Some (error_message e)
           \<and> ws_completedAgents ws = completedAgents (state w)"
  by (cases "logWorkflowComplete a
        \<lparr>ws_status = Failed,
         ws_totalDurationMs = now a (awaits w) - startTime (state w),
         ws_totalCostUsd = foldl (\<lambda>sum m. sum + (case costUsd m of Some c \<Rightarrow> c | None \<Rightarrow> 0)) 0
                              (map snd (agentMetrics (state w))),
         ws_completedAgents = completedAgents (state w),
         ws_agentMetrics = map (\<lambda>(name, m). (name, durationMs m, costUsd m)) (agentMetrics (state w)),
         ws_error = Some (error_message e)\<rparr>")
     (simp_all add: catch_workflow_error_def build_workflow_summary_def computeSummary_def Let_def
        modify_def suspend_def)

lemma pipeline_step_consistent:
  "consistent a vt st \<Longrightarrow> consistent a vt (fst (run_vuln_exploit_pipeline a vt st w))"
  by (cases st) (auto simp add: pipeline_outcome_def split: sum.splits)

lemma pipeline_three_steps:
  assumes "consistent a vt st"
  shows "fst (run_vuln_exploit_pipeline a vt
            (fst (run_vuln_exploit_pipeline a vt
               (fst (run_vuln_exploit_pipeline a vt st w)) w')) w'') =
         Settled (pipeline_outcome a vt)"
  using assms by (cases st) (auto simp add: pipeline_outcome_def split: sum.splits)

lemma pipeline_step_keeps_log: "keeps_log w (snd (run_vuln_exploit_pipeline a vt st w))"
  by (cases st)
     (auto simp add: keeps_log_def suspend_def modify_def split: sum.splits)

lemma keeps_log_refl [simp]: "keeps_log w w"
  by (simp add: keeps_log_def)

lemma keeps_log_trans: "keeps_log w1 w2 \<Longrightarrow> keeps_log w2 w3 \<Longrightarrow> keeps_log w1 w3"
  by (simp add: keeps_log_def)

lemma step_at_consistent:
  assumes "list_all (\<lambda>(vt, st). consistent a vt st) ps"
  shows "list_all (\<lambda>(vt, st). consistent a vt st) (fst (step_at a i (ps, w)))
       \<and> map fst (fst (step_at a i (ps, w))) = map fst ps
       \<and> keeps_log w (snd (step_at a i (ps, w)))"
proof (cases "i < length ps")
  case False
  with assms show ?thesis by (simp add: step_at_def)
next
  case True
  obtain vt st where p: "ps ! i = (vt, st)" by (cases "ps ! i")
  from assms True p have c: "consistent a vt st"
    by (auto simp add: list_all_length)
  have c': "consistent a vt (fst (run_vuln_exploit_pipeline a vt st w))"
    by (rule pipeline_step_consistent [OF c])
  have "list_all (\<lambda>(vt, st). consistent a vt st)
          (ps[i := (vt, fst (run_vuln_exploit_pipeline a vt st w))])"
    using assms c' set_update_subset_insert [of ps i "(vt, fst (run_vuln_exploit_pipeline a vt st w))"]
    by (auto simp add: list_all_iff)
  moreover have "map fst (ps[i := (vt, fst (run_vuln_exploit_pipeline a vt st w))]) = map fst ps"
    using True p by (simp add: map_update list_update_same_conv)
  ultimately show ?thesis
    using True p pipeline_step_keeps_log [of w a vt st]
    by (simp add: step_at_def split_beta)
qed

lemma run_schedule_consistent:
  assumes "list_all (\<lambda>(vt, st). consistent a vt st) ps"
  shows "list_all (\<lambda>(vt, st). consistent a vt st) (fst (run_schedule a sched (ps, w)))
       \<and> map fst (fst (run_schedule a sched (ps, w))) = map fst ps
       \<and> keeps_log w (snd (run_schedule a sched (ps, w)))"
  using assms
proof (induction sched arbitrary: ps w)
  case Nil
  then show ?case by (simp add: run_schedule_def)
next
  case (Cons i sched)
  obtain ps' w' where s: "step_at a i (ps, w) = (ps', w')" by (cases "step_at a i (ps, w)")
  from step_at_consistent [OF Cons.prems, of i w] s
  have 1: "list_all (\<lambda>(vt, st). consistent a vt st) ps'" "map fst ps' = map fst ps" "keeps_log w w'"
    by simp_all
  from Cons.IH [OF 1(1), of w'] 1(2,3) s show ?case
    by (auto simp add: run_schedule_def intro: keeps_log_trans)
qed

lemma settle_remaining_results:
  assumes "list_all (\<lambda>(vt, st). consistent a vt st) ps"
  shows "settled_results (fst (settle_remaining a ps w)) = map (pipeline_outcome a) (map fst ps)
       \<and> keeps_log w (snd (settle_remaining a ps w))"
  using assms
proof (induction ps arbitrary: w)
  case Nil
  show ?case by simp
next
  case (Cons p ps)
  obtain vt st where p: "p = (vt, st)" by (cases p)
  let ?r1 = "run_vuln_exploit_pipeline a vt st w"
  let ?r2 = "run_vuln_exploit_pipeline a vt (fst ?r1) (snd ?r1)"
  let ?r3 = "run_vuln_exploit_pipeline a vt (fst ?r2) (snd ?r2)"
  from Cons.prems p have c: "consistent a vt st" and rest: "list_all (\<lambda>(vt, st). consistent a vt st) ps"
    by simp_all
  have s3: "fst ?r3 = Settled (pipeline_outcome a vt)"
    by (rule pipeline_three_steps [OF c])
  have k: "keeps_log w (snd ?r3)"
    using pipeline_step_keeps_log [of w a vt st]
      pipeline_step_keeps_log [of "snd ?r1" a vt "fst ?r1"]
      pipeline_step_keeps_log [of "snd ?r2" a vt "fst ?r2"]
    by (blast intro: keeps_log_trans)
  from Cons.IH [OF rest, of "snd ?r3"] s3 k show ?case
    by (auto simp add: p split_beta intro: keeps_log_trans)
qed

lemma vulnerability_exploitation_results:
  assumes "logPhaseTransition a ''vulnerability-exploitation'' ''start'' = None"
  shows "\<exists>w'. execute_vulnerability_exploitation_phase a sched w =
                (logPhaseTransition a ''vulnerability-exploitation'' ''complete'', w')
           \<and> pipelineResults w' = map (pipeline_outcome a) vuln_types
           \<and> console w' =
               (if rejection_reasons (map (pipeline_outcome a) vuln_types) \<noteq> []
                then console w @ [rejection_reasons (map (pipeline_outcome a) vuln_types)]
                else console w)"
proof -
  let ?w1 = "suspend (modify (\<lambda>st. st\<lparr>currentPhase := Some ''vulnerability-exploitation'',
                                          currentAgent := Some ''pipelines''\<rparr>) w)"
  let ?init = "map (\<lambda>vt. (vt, AwaitVuln)) vuln_types"
  let ?r1 = "run_schedule a sched (?init, suspend ?w1)"
  let ?r2 = "settle_remaining a (fst ?r1) (snd ?r1)"
  have i: "list_all (\<lambda>(vt, st). consistent a vt st) ?init"
    by (simp add: list_all_iff)
  from run_schedule_consistent [OF i, of sched "suspend ?w1"]
  have 1: "list_all (\<lambda>(vt, st). consistent a vt st) (fst ?r1)"
    "map fst (fst ?r1) = vuln_types" "keeps_log (suspend ?w1) (snd ?r1)"
    by (simp_all add: comp_def)
  from settle_remaining_results [OF 1(1), of "snd ?r1"] 1(2)
  have 2: "settled_results (fst ?r2) = map (pipeline_outcome a) vuln_types"
    "keeps_log (snd ?r1) (snd ?r2)"
    by simp_all
  have c: "console (snd ?r2) = console w"
    using 1(3) 2(2) by (simp add: keeps_log_def suspend_def modify_def)
  show ?thesis
    using assms 2(1) c
    by (simp add: execute_vulnerability_exploitation_phase_def Let_def split_beta suspend_def modify_def)
qed

lemma exactly_one_rejection:
  assumes "distinct xs" and "x0 \<in> set xs" and "f x0 = Inl e"
    and "\<forall>x \<in> set xs. x \<noteq> x0 \<longrightarrow> (\<exists>r. f x = Inr r)"
  shows "rejection_reasons (map f xs) = [error_message e]"
  using assms
proof (induction xs)
  case Nil
  then show ?case by simp
next
  case (Cons x xs)
  show ?case
  proof (cases "x = x0")
    case True
    with Cons.prems have "\<forall>y \<in> set xs. \<exists>r. f y = Inr r" by auto
    then have "rejection_reasons (map f xs) = []"
      by (induction xs) auto
    with True Cons.prems(3) show ?thesis by simp
  next
    case False
    with Cons.prems obtain r where "f x = Inr r" by auto
    moreover from False Cons have "rejection_reasons (map f xs) = [error_message e]" by auto
    ultimately show ?thesis by simp
  qed
qed

lemma pre_recon_keeps_log: "keeps_log w (snd (execute_pre_recon_phase a w))"
  by (auto simp add: execute_pre_recon_phase_def Let_def keeps_log_def suspend_def modify_def
      split: option.splits sum.splits)

lemma recon_keeps_log: "keeps_log w (snd (execute_recon_phase a w))"
  by (auto simp add: execute_recon_phase_def Let_def keeps_log_def suspend_def modify_def
      split: option.splits sum.splits)

lemma reporting_keeps_log: "keeps_log w (snd (execute_reporting_phase a w))"
  by (auto simp add: execute_reporting_phase_def Let_def keeps_log_def suspend_def modify_def
      split: option.splits sum.splits)

lemma pre_recon_returns:
  assumes "\<forall>p ev. logPhaseTransition a p ev = None" and "runAgent a ''pre-recon'' = Inr m"
  shows "fst (execute_pre_recon_phase a w) = None"
  using assms by (simp add: execute_pre_recon_phase_def Let_def)

lemma recon_returns:
  assumes "\<forall>p ev. logPhaseTransition a p ev = None" and "runAgent a ''recon'' = Inr m"
  shows "fst (execute_recon_phase a w) = None"
  using assms by (simp add: execute_recon_phase_def Let_def)

lemma reporting_returns:
  assumes "\<forall>p ev. logPhaseTransition a p ev = None" and "runAgent a ''report'' = Inr m"
    and "assembleReportActivity a = None" and "injectReportMetadataActivity a = None"
  shows "fst (execute_reporting_phase a w) = None"
    and "''report'' \<in> set (completedAgents (state (snd (execute_reporting_phase a w))))"
  using assms
  by (simp_all add: execute_reporting_phase_def Let_def suspend_def modify_def record_agent_def)

lemma reporting_observed:
  "\<exists>s \<in> set (observed (snd (execute_reporting_phase a w))).
      currentPhase s = Some ''reporting'' \<and> status s = status (state w)"
  by (auto simp add: execute_reporting_phase_def Let_def suspend_def modify_def record_agent_def
      split: option.splits sum.splits)

lemmas activity_defs =
  healthy_activities_def xss_fails_activities_def recon_fails_activities_def
  notification_fails_activities_def sample_metrics_def

text \<open>
  C1. In every run, whatever the activities do and in whatever order the sub-pipelines
  progress, every state a query can observe (the initial state, the state at each
  suspension of the workflow, the final state) has a summary if and only if its status is
  not running. The run starts running without a summary and ends not running with one:
  status and summary are assigned together, with no suspension between the two
  assignments.
\<close>

theorem summary_iff_not_running:
  "(\<forall>s \<in> set (observable_states a sched). (summary s \<noteq> None) = (status s \<noteq> Running))
   \<and> status (initial_state a) = Running \<and> summary (initial_state a) = None
   \<and> status (state (snd (pentestPipelineWorkflow a sched))) \<noteq> Running
   \<and> summary (state (snd (pentestPipelineWorkflow a sched))) \<noteq> None"
proof -
  obtain r w where rp: "run_phases a sched (initial_world a) = (r, w)"
    by (cases "run_phases a sched (initial_world a)")
  note st = run_phases_from_start [OF rp]
  have obs: "\<forall>s \<in> set (observed w). terminal_invariant s"
    using st(4) by (simp add: terminal_invariant_def)
  have "(\<forall>s \<in> set (observed (snd (pentestPipelineWorkflow a sched))). terminal_invariant s)
        \<and> status (state (snd (pentestPipelineWorkflow a sched))) \<noteq> Running
        \<and> summary (state (snd (pentestPipelineWorkflow a sched))) \<noteq> None"
  proof (cases r)
    case (Some e)
    with rp catch_workflow_error_invariant [OF obs, of a e] show ?thesis
      by (simp add: pentestPipelineWorkflow_def)
  next
    case None
    let ?w1 = "modify (\<lambda>st. st\<lparr>status := Completed, currentPhase := None, currentAgent := None\<rparr>) w"
    let ?w2 = "modify (\<lambda>st. st\<lparr>summary := Some (computeSummary st (now a (awaits ?w1)))\<rparr>) ?w1"
    obtain ws where ws: "build_workflow_summary (state ?w2) Completed None = Inr ws"
      by (simp add: build_workflow_summary_def modify_def)
    let ?w3 = "suspend (?w2\<lparr>notified := notified ?w2 @ [ws]\<rparr>)"
    have obs3: "\<forall>s \<in> set (observed ?w3). terminal_invariant s"
      using obs by (auto simp add: suspend_def modify_def terminal_invariant_def)
    show ?thesis
    proof (cases "logWorkflowComplete a ws")
      case None
      with \<open>r = None\<close> rp ws obs3 show ?thesis
        by (simp add: pentestPipelineWorkflow_def Let_def) (simp add: suspend_def modify_def)
    next
      case (Some e)
      with \<open>r = None\<close> rp ws catch_workflow_error_invariant [OF obs3, of a e] show ?thesis
        by (simp add: pentestPipelineWorkflow_def Let_def)
    qed
  qed
  then show ?thesis
    by (auto simp add: observable_states_def Let_def terminal_invariant_def initial_state_def)
qed

theorem summary_iff_not_running_witness:
  "state (snd (pentestPipelineWorkflow recon_fails_activities [])) \<in>
     set (observable_states recon_fails_activities [])
   \<and> (summary (state (snd (pentestPipelineWorkflow recon_fails_activities []))) \<noteq> None) =
       (status (state (snd (pentestPipelineWorkflow recon_fails_activities []))) \<noteq> Running)
   \<and> status (state (snd (pentestPipelineWorkflow recon_fails_activities []))) = Failed"
proof -
  have m: "state (snd (pentestPipelineWorkflow recon_fails_activities [])) \<in>
     set (observable_states recon_fails_activities [])"
    by (simp add: observable_states_def Let_def)
  have f: "status (state (snd (pentestPipelineWorkflow recon_fails_activities []))) = Failed"
    by code_simp
  from summary_iff_not_running [of recon_fails_activities "[]"] m f show ?thesis
    by blast
qed

lemma progress_kept_suspend: "progress_kept w \<Longrightarrow> progress_kept (suspend w)"
  by (simp add: progress_kept_def suspend_def)

lemma progress_kept_record: "progress_kept w \<Longrightarrow> progress_kept (modify (record_agent name m) w)"
  by (auto simp add: progress_kept_def modify_def record_agent_def intro: prefix_order.trans)

lemma progress_kept_position:
  "progress_kept w \<Longrightarrow>
   progress_kept (modify (\<lambda>st. st\<lparr>currentPhase := p, currentAgent := c\<rparr>) w)"
  by (simp add: progress_kept_def modify_def)

lemma progress_kept_console:
  "progress_kept w \<Longrightarrow> progress_kept (w\<lparr>pipelineResults := r, console := c\<rparr>)"
  by (simp add: progress_kept_def)

lemmas progress_kept_intros =
  progress_kept_suspend progress_kept_record progress_kept_position progress_kept_console

lemma pipeline_step_progress:
  "progress_kept w \<Longrightarrow> progress_kept (snd (run_vuln_exploit_pipeline a vt st w))"
  by (cases st) (auto split: sum.splits intro!: progress_kept_intros)

lemma step_at_progress: "progress_kept (snd pw) \<Longrightarrow> progress_kept (snd (step_at a i pw))"
  using pipeline_step_progress [of "snd pw" a "fst (fst pw ! i)" "snd (fst pw ! i)"]
  by (cases pw) (simp add: step_at_def Let_def split_beta)

lemma run_schedule_progress:
  "progress_kept (snd pw) \<Longrightarrow> progress_kept (snd (run_schedule a sched pw))"
proof (induction sched arbitrary: pw)
  case Nil
  then show ?case by (simp add: run_schedule_def)
next
  case (Cons i sched)
  from Cons.prems have "progress_kept (snd (step_at a i pw))" by (rule step_at_progress)
  then have "progress_kept (snd (run_schedule a sched (step_at a i pw)))" by (rule Cons.IH)
  then show ?case by (simp add: run_schedule_def)
qed

lemma settle_remaining_progress:
  "progress_kept w \<Longrightarrow> progress_kept (snd (settle_remaining a ps w))"
proof (induction ps arbitrary: w)
  case Nil
  then show ?case by simp
next
  case (Cons p ps)
  obtain vt st where p: "p = (vt, st)" by (cases p)
  let ?r1 = "run_vuln_exploit_pipeline a vt st w"
  let ?r2 = "run_vuln_exploit_pipeline a vt (fst ?r1) (snd ?r1)"
  let ?r3 = "run_vuln_exploit_pipeline a vt (fst ?r2) (snd ?r2)"
  from Cons.prems have "progress_kept (snd ?r1)" by (rule pipeline_step_progress)
  then have "progress_kept (snd ?r2)" by (rule pipeline_step_progress)
  then have "progress_kept (snd ?r3)" by (rule pipeline_step_progress)
  then have "progress_kept (snd (settle_remaining a ps (snd ?r3)))" by (rule Cons.IH)
  then show ?case by (simp add: p split_beta)
qed

lemma pre_recon_progress:
  "progress_kept w \<Longrightarrow> progress_kept (snd (execute_pre_recon_phase a w))"
  by (auto simp add: execute_pre_recon_phase_def Let_def split: option.splits sum.splits
      intro!: progress_kept_intros)

lemma recon_progress:
  "progress_kept w \<Longrightarrow> progress_kept (snd (execute_recon_phase a w))"
  by (auto simp add: execute_recon_phase_def Let_def split: option.splits sum.splits
      intro!: progress_kept_intros)

lemma reporting_progress:
  "progress_kept w \<Longrightarrow> progress_kept (snd (execute_reporting_phase a w))"
  by (auto simp add: execute_reporting_phase_def Let_def split: option.splits sum.splits
      intro!: progress_kept_intros)

lemma vulnerability_exploitation_progress:
  assumes "progress_kept w"
  shows "progress_kept (snd (execute_vulnerability_exploitation_phase a sched w))"
proof (cases "logPhaseTransition a ''vulnerability-exploitation'' ''start''")
  case (Some e)
  with assms show ?thesis
    by (auto simp add: execute_vulnerability_exploitation_phase_def Let_def
        intro!: progress_kept_intros)
next
  case None
  let ?w1 = "suspend (modify (\<lambda>st. st\<lparr>currentPhase := Some ''vulnerability-exploitation'',
                                          currentAgent := Some ''pipelines''\<rparr>) w)"
  let ?r1 = "run_schedule a sched (map (\<lambda>vt. (vt, AwaitVuln)) vuln_types, suspend ?w1)"
  let ?r2 = "settle_remaining a (fst ?r1) (snd ?r1)"
  have "progress_kept (suspend ?w1)"
    using assms by (intro progress_kept_intros)
  then have "progress_kept (snd ?r1)"
    using run_schedule_progress [of "(map (\<lambda>vt. (vt, AwaitVuln)) vuln_types, suspend ?w1)" a sched]
    by simp
  then have "progress_kept (snd ?r2)"
    by (rule settle_remaining_progress)
  then have "progress_kept
          (suspend (modify (\<lambda>st. st\<lparr>currentPhase := Some ''exploitation'', currentAgent := None\<rparr>)
             ((snd ?r2)\<lparr>pipelineResults := r, console := c\<rparr>)))" for r c
    by (intro progress_kept_intros)
  then show ?thesis
    using None
    by (simp add: execute_vulnerability_exploitation_phase_def Let_def split_beta)
qed

lemma run_phases_progress:
  assumes "progress_kept w"
  shows "progress_kept (snd (run_phases a sched w))"
proof -
  let ?p1 = "execute_pre_recon_phase a w"
  let ?p2 = "execute_recon_phase a (snd ?p1)"
  let ?p3 = "execute_vulnerability_exploitation_phase a sched (snd ?p2)"
  let ?p4 = "execute_reporting_phase a (snd ?p3)"
  have c1: "progress_kept (snd ?p1)" using assms by (rule pre_recon_progress)
  then have c2: "progress_kept (snd ?p2)" by (rule recon_progress)
  then have c3: "progress_kept (snd ?p3)" by (rule vulnerability_exploitation_progress)
  then have c4: "progress_kept (snd ?p4)" by (rule reporting_progress)
  show ?thesis
    using c1 c2 c3 c4
    by (auto simp add: run_phases_def split: prod.splits option.splits)
qed

lemma initial_world_progress: "progress_kept (initial_world a)"
  by (simp add: progress_kept_def initial_world_def)

lemma foldl_sum_list:
  "foldl (\<lambda>sum m. sum + f m) acc ms = acc + sum_list (map f ms)"
  by (induction ms arbitrary: acc) (simp_all add: add.assoc)

lemma computeSummary_totals:
  "computeSummary st clock =
     \<lparr>totalCostUsd =
        sum_list (map (\<lambda>m. case costUsd m of Some c \<Rightarrow> c | None \<Rightarrow> 0) (map snd (agentMetrics st))),
      totalDurationMs = clock - startTime st,
      totalTurns =
        sum_list (map (\<lambda>m. case numTurns m of Some n \<Rightarrow> n | None \<Rightarrow> 0) (map snd (agentMetrics st))),
      agentCount = length (completedAgents st)\<rparr>"
  by (simp add: computeSummary_def Let_def
      foldl_sum_list [where f = "\<lambda>m. case costUsd m of Some c \<Rightarrow> c | None \<Rightarrow> 0"]
      foldl_sum_list [where f = "\<lambda>m. case numTurns m of Some n \<Rightarrow> n | None \<Rightarrow> 0"])

lemma pre_recon_completed:
  "execute_pre_recon_phase a w0 = (None, w) \<Longrightarrow> ''pre-recon'' \<in> set (completedAgents (state w))"
  by (auto simp add: execute_pre_recon_phase_def Let_def suspend_def modify_def record_agent_def
      split: option.splits sum.splits)

lemma recon_completed:
  "execute_recon_phase a w0 = (None, w) \<Longrightarrow> ''recon'' \<in> set (completedAgents (state w))"
  by (auto simp add: execute_recon_phase_def Let_def suspend_def modify_def record_agent_def
      split: option.splits sum.splits)

lemma calm_keeps_completed:
  "calm w w' \<Longrightarrow> name \<in> set (completedAgents (state w)) \<Longrightarrow>
   name \<in> set (completedAgents (state w'))"
  by (auto simp add: calm_def)

lemma earlier_units_completed:
  assumes "run_phases a sched w0 = (Some e, w)"
  shows "(currentPhase (state w) = Some ''recon'' \<longrightarrow>
            ''pre-recon'' \<in> set (completedAgents (state w)))
       \<and> (currentPhase (state w) = Some ''reporting'' \<longrightarrow>
            ''pre-recon'' \<in> set (completedAgents (state w))
            \<and> ''recon'' \<in> set (completedAgents (state w)))"
proof -
  obtain r1 w1 where p1: "execute_pre_recon_phase a w0 = (r1, w1)"
    by (cases "execute_pre_recon_phase a w0")
  obtain r2 w2 where p2: "execute_recon_phase a w1 = (r2, w2)"
    by (cases "execute_recon_phase a w1")
  obtain r3 w3 where p3: "execute_vulnerability_exploitation_phase a sched w2 = (r3, w3)"
    by (cases "execute_vulnerability_exploitation_phase a sched w2")
  obtain r4 w4 where p4: "execute_reporting_phase a w3 = (r4, w4)"
    by (cases "execute_reporting_phase a w3")
  have c2: "calm w1 w2" using recon_calm [of w1 a] p2 by simp
  have c3: "calm w2 w3" using vulnerability_exploitation_calm [of w2 a sched] p3 by simp
  have c4: "calm w3 w4" using reporting_calm [of w3 a] p4 by simp
  from assms p1 p2 p3 p4
  consider (a) "w = w1" | (b) "w = w2" "r1 = None"
    | (c) "w = w3" | (d) "w = w4" "r1 = None" "r2 = None"
    by (auto simp add: run_phases_def split: option.splits)
  then show ?thesis
  proof cases
    case a
    with pre_recon_position [OF p1] show ?thesis by simp
  next
    case b
    with pre_recon_completed [of a w0 w1] p1 c2 recon_position [OF p2] show ?thesis
      by (auto intro: calm_keeps_completed)
  next
    case c
    with vulnerability_exploitation_position [OF p3] show ?thesis by auto
  next
    case d
    have "''pre-recon'' \<in> set (completedAgents (state w1))"
      using pre_recon_completed [of a w0 w1] p1 d(2) by simp
    then have 1: "''pre-recon'' \<in> set (completedAgents (state w4))"
      using c2 c3 c4 by (blast intro: calm_keeps_completed)
    have "''recon'' \<in> set (completedAgents (state w2))"
      using recon_completed [of a w1 w2] p2 d(3) by simp
    then have 2: "''recon'' \<in> set (completedAgents (state w4))"
      using c3 c4 by (blast intro: calm_keeps_completed)
    from 1 2 d(1) show ?thesis by simp
  qed
qed

text \<open>
  C3 as stated fails where it says that the error of the phase is re-raised: the catch
  block awaits \<open>logWorkflowComplete\<close> before \<open>throw error\<close> with nothing guarding the call,
  so when the notification itself throws, its error is what the caller observes. Here the
  recon agent crashes and the notification then fails.
\<close>

theorem notification_failure_counterexample:
  "fst (run_phases notification_fails_activities [] (initial_world notification_fails_activities)) =
     Some (ErrorObject ''recon agent crashed'')
   \<and> currentPhase (state (snd (run_phases notification_fails_activities []
                                  (initial_world notification_fails_activities)))) = Some ''recon''
   \<and> fst (pentestPipelineWorkflow notification_fails_activities []) =
       Inl (ErrorObject ''audit log unavailable'')
   \<and> fst (pentestPipelineWorkflow notification_fails_activities []) \<noteq>
       Inl (ErrorObject ''recon agent crashed'')"
  by code_simp

text \<open>
  C3, amended. When the \<open>try\<close> block throws \<open>e\<close> out of an ordered phase (pre-recon,
  recon or reporting), leaving the world \<open>w\<close>: the run ends with status failed;
  \<open>failedAgent\<close> is the unit in progress (one of pre-recon, recon, report); \<open>error\<close>
  holds the message of \<open>e\<close>; the summary holds the total cost and the total turns of the
  recorded metrics, the time since the start and the number of completed units; one
  terminal notification, the failed summary, has been sent; \<open>completedAgents\<close> is what it
  was when the phase threw, every state observed during the run lists a prefix of it, and
  the units of the earlier ordered phases are in it. The workflow raises \<open>e\<close> when the
  notification returns, and the notification's own error when it throws.
\<close>

theorem ordered_phase_failure:
  assumes "run_phases a sched (initial_world a) = (Some e, w)"
    and "currentPhase (state w) \<in> {Some ''pre-recon'', Some ''recon'', Some ''reporting''}"
  shows "\<exists>wf ws. pentestPipelineWorkflow a sched =
                   (Inl (case logWorkflowComplete a ws of None \<Rightarrow> e | Some e' \<Rightarrow> e'), wf)
           \<and> status (state wf) = Failed
           \<and> currentAgent (state w) \<in> {Some ''pre-recon'', Some ''recon'', Some ''report''}
           \<and> failedAgent (state wf) = currentAgent (state w)
           \<and> error (state wf) = Some (error_message e)
           \<and> summary (state wf) =
               Some \<lparr>totalCostUsd =
                       sum_list (map (\<lambda>m. case costUsd m of Some c \<Rightarrow> c | None \<Rightarrow> 0)
                                   (map snd (agentMetrics (state w)))),
                     totalDurationMs = now a (awaits w) - startTime (state w),
                     totalTurns =
                       sum_list (map (\<lambda>m. case numTurns m of Some n \<Rightarrow> n | None \<Rightarrow> 0)
                                   (map snd (agentMetrics (state w)))),
                     agentCount = length (completedAgents (state w))\<rparr>
           \<and> completedAgents (state wf) = completedAgents (state w)
           \<and> (\<forall>s \<in> set (observed wf). prefix (completedAgents s) (completedAgents (state wf)))
           \<and> (currentPhase (state w) = Some ''recon'' \<longrightarrow>
                ''pre-recon'' \<in> set (completedAgents (state wf)))
           \<and> (currentPhase (state w) = Some ''reporting'' \<longrightarrow>
                ''pre-recon'' \<in> set (completedAgents (state wf))
                \<and> ''recon'' \<in> set (completedAgents (state wf)))
           \<and> notified wf = [ws]
           \<and> ws_status ws = Failed
           \<and> ws_error ws = Some (error_message e)
           \<and> ws_completedAgents ws = completedAgents (state w)"
proof -
  from catch_workflow_error_outcome [where w = w and a = a and e = e]
  obtain wf ws where c:
      "catch_workflow_error a e w =
         (Inl (case logWorkflowComplete a ws of None \<Rightarrow> e | Some e' \<Rightarrow> e'), wf)"
      "status (state wf) = Failed"
      "failedAgent (state wf) = currentAgent (state w)"
      "error (state wf) = Some (error_message e)"
      "summary (state wf) = Some (computeSummary (state w) (now a (awaits w)))"
      "completedAgents (state wf) = completedAgents (state w)"
      "observed wf = observed w @ [state wf]"
      "notified wf = notified w @ [ws]"
      "ws_status ws = Failed"
      "ws_error ws = Some (error_message e)"
      "ws_completedAgents ws = completedAgents (state w)"
    by blast
  have n: "notified w = []"
    by (rule run_phases_from_start(3) [OF assms(1)])
  have u: "currentAgent (state w) \<in> {Some ''pre-recon'', Some ''recon'', Some ''report''}"
    using ordered_phase_unit [OF assms(1,2)] by auto
  have k: "progress_kept w"
    using run_phases_progress [OF initial_world_progress, where a = a and sched = sched and a1 = a]
      assms(1) by simp
  have kept: "\<forall>s \<in> set (observed wf). prefix (completedAgents s) (completedAgents (state wf))"
    using k c(6,7) by (auto simp add: progress_kept_def)
  note earlier = earlier_units_completed [OF assms(1)]
  have run: "pentestPipelineWorkflow a sched =
               (Inl (case logWorkflowComplete a ws of None \<Rightarrow> e | Some e' \<Rightarrow> e'), wf)"
    using assms(1) c(1) by (simp add: pentestPipelineWorkflow_def)
  show ?thesis
    apply (rule exI [of _ wf], rule exI [of _ ws])
    using run c(2-6) c(8-11) n u kept earlier
    by (simp add: computeSummary_totals)
qed

theorem ordered_phase_failure_witness:
  "\<exists>wf. pentestPipelineWorkflow recon_fails_activities [] =
           (Inl (ErrorObject ''recon agent crashed''), wf)
     \<and> status (state wf) = Failed
     \<and> failedAgent (state wf) = Some ''recon''
     \<and> error (state wf) = Some ''recon agent crashed''
     \<and> completedAgents (state wf) = [''pre-recon'']
     \<and> summary (state wf) =
         Some \<lparr>totalCostUsd = 1 / 2, totalDurationMs = 300000, totalTurns = 7, agentCount = 1\<rparr>"
proof -
  let ?w = "snd (run_phases recon_fails_activities [] (initial_world recon_fails_activities))"
  have f: "fst (run_phases recon_fails_activities [] (initial_world recon_fails_activities)) =
             Some (ErrorObject ''recon agent crashed'')"
    by code_simp
  have h1: "run_phases recon_fails_activities [] (initial_world recon_fails_activities) =
              (Some (ErrorObject ''recon agent crashed''), ?w)"
    using f by (simp add: prod_eq_iff)
  have p: "currentPhase (state ?w) = Some ''recon''"
    by code_simp
  have h2: "currentPhase (state ?w) \<in> {Some ''pre-recon'', Some ''recon'', Some ''reporting''}"
    by (simp add: p)
  have n: "logWorkflowComplete recon_fails_activities ws = None" for ws
    by (simp add: activity_defs)
  have c: "currentAgent (state ?w) = Some ''recon''"
    by code_simp
  have d: "completedAgents (state ?w) = [''pre-recon'']"
    by code_simp
  have m: "map snd (agentMetrics (state ?w)) = [sample_metrics]"
    by code_simp
  have t: "now recon_fails_activities (awaits ?w) - startTime (state ?w) = 300000"
    by code_simp
  from ordered_phase_failure [OF h1 h2] show ?thesis
    by (auto simp add: c d m t n sample_metrics_def)
qed

text \<open>
  C4. When one of the five sub-pipelines is rejected and everything else succeeds, then
  for every interleaving of the sub-pipelines: \<open>Promise.allSettled\<close> returns each
  sub-pipeline's own outcome (so the four siblings are fulfilled), exactly one failure
  reason is logged, the run goes on to the reporting phase with status running, and it
  ends completed.
\<close>

theorem one_failed_pipeline_is_isolated:
  assumes "vt0 \<in> set vuln_types"
    and "pipeline_outcome a vt0 = Inl e"
    and "\<forall>vt \<in> set vuln_types. vt \<noteq> vt0 \<longrightarrow> (\<exists>r. pipeline_outcome a vt = Inr r)"
    and "\<forall>p ev. logPhaseTransition a p ev = None"
    and "\<forall>name \<in> {''pre-recon'', ''recon'', ''report''}. \<exists>m. runAgent a name = Inr m"
    and "assembleReportActivity a = None"
    and "injectReportMetadataActivity a = None"
    and "\<forall>ws. logWorkflowComplete a ws = None"
  shows "\<exists>final w. pentestPipelineWorkflow a sched = (Inr final, w)
           \<and> status final = Completed
           \<and> pipelineResults w = map (pipeline_outcome a) vuln_types
           \<and> rejection_reasons (pipelineResults w) = [error_message e]
           \<and> console w = [[error_message e]]
           \<and> ''report'' \<in> set (completedAgents final)
           \<and> (\<exists>s \<in> set (observable_states a sched).
                 currentPhase s = Some ''reporting'' \<and> status s = Running)"
proof -
  from assms(5) obtain m1 m2 m3 where
    m: "runAgent a ''pre-recon'' = Inr m1" "runAgent a ''recon'' = Inr m2"
       "runAgent a ''report'' = Inr m3"
    by auto
  have start: "logPhaseTransition a ''vulnerability-exploitation'' ''start'' = None"
    and complete: "logPhaseTransition a ''vulnerability-exploitation'' ''complete'' = None"
    using assms(4) by simp_all
  let ?w0 = "initial_world a"
  obtain w1 where p1: "execute_pre_recon_phase a ?w0 = (None, w1)"
    using pre_recon_returns [OF assms(4) m(1), of ?w0]
    by (cases "execute_pre_recon_phase a ?w0") simp
  obtain w2 where p2: "execute_recon_phase a w1 = (None, w2)"
    using recon_returns [OF assms(4) m(2), of w1]
    by (cases "execute_recon_phase a w1") simp
  have rej: "rejection_reasons (map (pipeline_outcome a) vuln_types) = [error_message e]"
    by (rule exactly_one_rejection [OF _ assms(1,2,3)]) (simp add: vuln_types_def)
  from vulnerability_exploitation_results [OF start, of sched w2] complete rej
  obtain w3 where p3: "execute_vulnerability_exploitation_phase a sched w2 = (None, w3)"
      "pipelineResults w3 = map (pipeline_outcome a) vuln_types"
      "console w3 = console w2 @ [[error_message e]]"
    by auto
  obtain w4 where p4: "execute_reporting_phase a w3 = (None, w4)"
    using reporting_returns(1) [OF assms(4) m(3) assms(6,7), of w3]
    by (cases "execute_reporting_phase a w3") simp
  have rp: "run_phases a sched ?w0 = (None, w4)"
    using p1 p2 p3(1) p4 by (simp add: run_phases_def)
  note st = run_phases_from_start [OF rp]
  have c2: "console w2 = []"
    using pre_recon_keeps_log [of ?w0 a] recon_keeps_log [of w1 a] p1 p2
    by (simp add: keeps_log_def initial_world_def)
  have k4: "console w4 = [[error_message e]]" "pipelineResults w4 = map (pipeline_outcome a) vuln_types"
    using reporting_keeps_log [of w3 a] p4 p3(2,3) c2 by (simp_all add: keeps_log_def)
  have rep: "''report'' \<in> set (completedAgents (state w4))"
    using reporting_returns(2) [OF assms(4) m(3) assms(6,7), of w3] p4 by simp
  have s3: "status (state w3) = Running"
    using run_phases_calm [of ?w0 a sched] vulnerability_exploitation_calm [of w2 a sched]
      recon_calm [of w1 a] pre_recon_calm [of ?w0 a] p1 p2 p3(1)
    by (simp add: calm_def initial_world_def initial_state_def)
  from reporting_observed [of a w3] p4 s3
  obtain s where s: "s \<in> set (observed w4)" "currentPhase s = Some ''reporting''" "status s = Running"
    by auto
  let ?w5 = "modify (\<lambda>st. st\<lparr>status := Completed, currentPhase := None, currentAgent := None\<rparr>) w4"
  let ?w6 = "modify (\<lambda>st. st\<lparr>summary := Some (computeSummary st (now a (awaits ?w5)))\<rparr>) ?w5"
  obtain ws where ws: "build_workflow_summary (state ?w6) Completed None = Inr ws"
    by (simp add: build_workflow_summary_def modify_def)
  let ?w7 = "suspend (?w6\<lparr>notified := notified ?w6 @ [ws]\<rparr>)"
  have run: "pentestPipelineWorkflow a sched = (Inr (state ?w7), ?w7)"
    using rp ws assms(8) by (simp add: pentestPipelineWorkflow_def Let_def)
  have obs: "s \<in> set (observable_states a sched)"
    using s(1) by (simp add: observable_states_def run Let_def) (simp add: suspend_def modify_def)
  show ?thesis
    apply (rule exI [of _ "state ?w7"], rule exI [of _ ?w7])
    using run k4 rep rej obs s(2,3)
    by (auto simp add: suspend_def modify_def)
qed

theorem one_failed_pipeline_is_isolated_witness:
  "\<exists>final w. pentestPipelineWorkflow xss_fails_activities [1, 0, 3, 0] = (Inr final, w)
     \<and> status final = Completed
     \<and> rejection_reasons (pipelineResults w) = [''xss agent crashed'']
     \<and> console w = [[''xss agent crashed'']]
     \<and> ''report'' \<in> set (completedAgents final)"
proof -
  have h1: "''xss'' \<in> set vuln_types"
    by (simp add: vuln_types_def)
  have h2: "pipeline_outcome xss_fails_activities ''xss'' = Inl (ErrorObject ''xss agent crashed'')"
    by (simp add: pipeline_outcome_def activity_defs)
  have h3: "\<forall>vt \<in> set vuln_types. vt \<noteq> ''xss'' \<longrightarrow>
              (\<exists>r. pipeline_outcome xss_fails_activities vt = Inr r)"
    by (simp add: vuln_types_def pipeline_outcome_def activity_defs)
  have h4: "\<forall>p ev. logPhaseTransition xss_fails_activities p ev = None"
    by (simp add: activity_defs)
  have h5: "\<forall>name \<in> {''pre-recon'', ''recon'', ''report''}.
              \<exists>m. runAgent xss_fails_activities name = Inr m"
    by (simp add: activity_defs)
  have h6: "assembleReportActivity xss_fails_activities = None"
    and h7: "injectReportMetadataActivity xss_fails_activities = None"
    and h8: "\<forall>ws. logWorkflowComplete xss_fails_activities ws = None"
    by (simp_all add: activity_defs)
  from one_failed_pipeline_is_isolated [OF h1 h2 h3 h4 h5 h6 h7 h8, of "[1, 0, 3, 0]"]
  show ?thesis by auto
qed

text \<open>
  C9 as stated fails: the handler computes \<open>elapsedMs\<close> from the clock at each call, so
  two calls on the same state at different clock readings return different snapshots.
\<close>

theorem query_snapshot_counterexample:
  "getProgress_handler example_state ''shannon-1'' 5000 \<noteq>
   getProgress_handler example_state ''shannon-1'' 6000"
  by (simp add: getProgress_handler_def example_state_def PipelineState.extend_def PipelineProgress.fields_def)

text \<open>
  C9, amended. Two calls of the query handler with no mutation of the run state in
  between return snapshots that agree on every field of the run state and on
  \<open>workflowId\<close>; they differ at most in \<open>elapsedMs\<close>, which is the clock reading of the
  call minus \<open>startTime\<close>, so they are equal exactly when the two clock readings are.
\<close>

theorem query_snapshots_differ_in_elapsed_only:
  "getProgress_handler st wid t2 = (getProgress_handler st wid t1)\<lparr>elapsedMs := t2 - startTime st\<rparr>
   \<and> PipelineState.truncate (getProgress_handler st wid t1) = st
   \<and> PipelineState.truncate (getProgress_handler st wid t2) = st
   \<and> workflowId (getProgress_handler st wid t1) = wid
   \<and> workflowId (getProgress_handler st wid t2) = wid
   \<and> elapsedMs (getProgress_handler st wid t1) = t1 - startTime st
   \<and> (getProgress_handler st wid t1 = getProgress_handler st wid t2) = (t1 = t2)"
  by (cases st) (auto simp add: getProgress_handler_def PipelineState.extend_def PipelineProgress.fields_def PipelineState.truncate_def)


section \<open>Properties of the progress bridge\<close>

text \<open>
  C7 as stated fails for two of the fields known from the query: \<open>startTime\<close> is
  replaced by the start time \<open>describe()\<close> reports and \<open>elapsedMs\<close> is recomputed.
\<close>

theorem reconciled_startTime_counterexample:
  "getProgress terminated_client ''shannon-1'' =
     Inr (stale_progress\<lparr>status := Failed, startTime := 3990, elapsedMs := 5010,
                          error := Some ''Workflow is terminated''\<rparr>)
   \<and> status stale_progress = Running
   \<and> startTime stale_progress = 4000
   \<and> elapsedMs stale_progress = 1000"
  by (simp add: getProgress_def terminated_client_def stale_progress_def getProgress_handler_def
      example_state_def to_progress_status_def toUpperCase_def upper_char_def
      reconciliation_note_def toLowerCase_def lower_char_def PipelineState.extend_def PipelineProgress.fields_def)

text \<open>
  C7, amended. When the query succeeds and \<open>describe()\<close> reports a state other than
  running, \<open>getProgress\<close> returns the query's snapshot with the status of
  \<open>describe()\<close>; phase, agent, completed agents, failed agent, metrics, summary and
  workflow id are the query's; \<open>startTime\<close> is the one \<open>describe()\<close> reports (the
  query's when it reports none); \<open>elapsedMs\<close> is raised to at least the time since that
  start; and \<open>error\<close> is the reconciliation note exactly when the query's was null.
\<close>

theorem reconciled_progress:
  assumes "connect client = None"
    and "query_getProgress client wid = Inr p"
    and "describe client wid = Inr d"
    and "to_progress_status (status_name d) \<noteq> Running"
  shows "\<exists>r. getProgress client wid = Inr r
           \<and> status r = to_progress_status (status_name d)
           \<and> currentPhase r = currentPhase p
           \<and> currentAgent r = currentAgent p
           \<and> completedAgents r = completedAgents p
           \<and> failedAgent r = failedAgent p
           \<and> agentMetrics r = agentMetrics p
           \<and> summary r = summary p
           \<and> workflowId r = workflowId p
           \<and> startTime r = (case description_startTime d of Some t \<Rightarrow> t | None \<Rightarrow> startTime p)
           \<and> elapsedMs r = max (elapsedMs p) (max 0 (date_now client - startTime r))
           \<and> error r = (case error p of None \<Rightarrow> Some (reconciliation_note d) | Some e \<Rightarrow> Some e)"
  using assms by (simp add: getProgress_def Let_def)

theorem reconciled_progress_witness:
  "\<exists>r. getProgress terminated_client ''shannon-1'' = Inr r
      \<and> status r = Failed
      \<and> currentPhase r = Some ''recon''
      \<and> completedAgents r = [''pre-recon'']
      \<and> workflowId r = ''shannon-1''
      \<and> error r = Some ''Workflow is terminated''"
proof -
  have h1: "connect terminated_client = None"
    and h2: "query_getProgress terminated_client ''shannon-1'' = Inr stale_progress"
    and h3: "describe terminated_client ''shannon-1'' =
               Inr \<lparr>status_name = Some ''TERMINATED'', description_startTime = Some 3990\<rparr>"
    by (simp_all add: terminated_client_def)
  have h4: "to_progress_status (status_name \<lparr>status_name = Some ''TERMINATED'', description_startTime = Some 3990\<rparr>) \<noteq> Running"
    by (simp add: to_progress_status_def toUpperCase_def upper_char_def)
  from reconciled_progress [OF h1 h2 h3 h4] show ?thesis
    by (auto simp add: to_progress_status_def toUpperCase_def upper_char_def
      stale_progress_def getProgress_handler_def example_state_def
      reconciliation_note_def toLowerCase_def lower_char_def PipelineState.extend_def PipelineProgress.fields_def)
qed


section \<open>Properties of the WebSocket server\<close>

lemma split_newline_nonempty [simp]: "split_newline s \<noteq> []"
  by (induction s) (auto split: list.splits)

lemma split_newline_no_newline: "newline \<notin> set s \<Longrightarrow> split_newline s = [s]"
  by (induction s) auto

lemma last_split_newline_no_newline: "newline \<notin> set (last (split_newline s))"
  by (induction s) (auto split: list.splits)

lemma split_newline_append:
  "split_newline (a @ b) = butlast (split_newline a) @ split_newline (last (split_newline a) @ b)"
proof (induction a)
  case Nil
  show ?case by simp
next
  case (Cons c cs)
  obtain l ls where s: "split_newline cs = l # ls"
    by (cases "split_newline cs") auto
  show ?case
  proof (cases "c = newline")
    case True
    with Cons s show ?thesis by simp
  next
    case False
    show ?thesis
    proof (cases ls)
      case Nil
      with Cons s False show ?thesis by simp
    next
      case (Cons y ys)
      with Cons.IH s False show ?thesis by simp
    qed
  qed
qed

lemma split_newline_partial:
  assumes "newline \<notin> set p"
  shows "split_newline (x @ p) = butlast (split_newline x) @ [last (split_newline x) @ p]"
proof -
  have "newline \<notin> set (last (split_newline x) @ p)"
    using assms last_split_newline_no_newline [of x] by simp
  then have "split_newline (last (split_newline x) @ p) = [last (split_newline x) @ p]"
    by (rule split_newline_no_newline)
  then show ?thesis
    by (simp add: split_newline_append [of x p])
qed

lemma split_newline_terminated:
  "newline \<notin> set r \<Longrightarrow> split_newline (r @ [newline]) = [r, []]"
  by (induction r) auto

lemma foldl_on_data:
  "newline \<notin> set buf \<Longrightarrow>
   foldl on_data (ls, buf) chunks =
     (ls @ butlast (split_newline (buf @ concat chunks)),
      last (split_newline (buf @ concat chunks)))"
proof (induction chunks arbitrary: ls buf)
  case Nil
  then show ?case by (simp add: split_newline_no_newline)
next
  case (Cons c cs)
  have nb: "newline \<notin> set (last (split_newline (buf @ c)))"
    by (rule last_split_newline_no_newline)
  have "foldl on_data (ls, buf) (c # cs) =
        foldl on_data (ls @ butlast (split_newline (buf @ c)), last (split_newline (buf @ c))) cs"
    by (simp add: on_data_def Let_def)
  also have "\<dots> = ((ls @ butlast (split_newline (buf @ c)))
                      @ butlast (split_newline (last (split_newline (buf @ c)) @ concat cs)),
                    last (split_newline (last (split_newline (buf @ c)) @ concat cs)))"
    by (rule Cons.IH [OF nb])
  also have "\<dots> = (ls @ butlast (split_newline (buf @ concat (c # cs))),
                    last (split_newline (buf @ concat (c # cs))))"
    using split_newline_append [of "buf @ c" "concat cs"]
    by (simp add: butlast_append)
  finally show ?case .
qed

lemma concat_chunks_of: "concat (chunks_of n s) = s"
proof (induction n s rule: chunks_of.induct)
  case (1 n s)
  show ?case
  proof (cases "s = [] \<or> n = 0")
    case True
    then show ?thesis by (auto simp add: chunks_of.simps [of n s])
  next
    case False
    with 1 show ?thesis by (simp add: chunks_of.simps [of n s])
  qed
qed

lemma tail_log_lines:
  "logPosition sub < length content \<Longrightarrow>
   tail_log hwm content sub =
     (filter trim_nonempty (butlast (split_newline (drop (logPosition sub) content))),
      sub\<lparr>logPosition := length content\<rparr>)"
  using foldl_on_data [of "[]" "[]" "chunks_of hwm (drop (logPosition sub) content)"]
  by (simp add: tail_log_def Let_def concat_chunks_of)

lemma tail_polls_shift:
  "fst (tail_polls hwm (sub\<lparr>logPosition := length base + q\<rparr>) (map ((@) base) exts)) =
   fst (tail_polls hwm (sub\<lparr>logPosition := q\<rparr>) exts)"
proof (induction exts arbitrary: q sub)
  case Nil
  show ?case by simp
next
  case (Cons e exts)
  show ?case
  proof (cases "q < length e")
    case True
    then have a: "tail_log hwm (base @ e) (sub\<lparr>logPosition := length base + q\<rparr>) =
        (filter trim_nonempty (butlast (split_newline (drop q e))),
         sub\<lparr>logPosition := length base + length e\<rparr>)"
      using tail_log_lines [where sub = "sub\<lparr>logPosition := length base + q\<rparr>" and content = "base @ e" and hwm = hwm] by simp
    from True have b: "tail_log hwm e (sub\<lparr>logPosition := q\<rparr>) =
        (filter trim_nonempty (butlast (split_newline (drop q e))),
         sub\<lparr>logPosition := length e\<rparr>)"
      using tail_log_lines [where sub = "sub\<lparr>logPosition := q\<rparr>" and content = e and hwm = hwm] by simp
    show ?thesis
      using Cons.IH [where sub = sub and q = "length e"] by (simp add: a b split_beta)
  next
    case False
    then have a: "tail_log hwm (base @ e) (sub\<lparr>logPosition := length base + q\<rparr>) =
        ([], sub\<lparr>logPosition := length base + q\<rparr>)"
      by (simp add: tail_log_def)
    from False have b: "tail_log hwm e (sub\<lparr>logPosition := q\<rparr>) = ([], sub\<lparr>logPosition := q\<rparr>)"
      by (simp add: tail_log_def)
    show ?thesis
      using Cons.IH [where sub = sub and q = q] by (simp add: a b split_beta)
  qed
qed

lemma error_events_append [simp]: "error_events (xs @ ys) = error_events xs @ error_events ys"
  by (induction xs rule: error_events.induct) simp_all

lemma error_events_broadcast_error [simp]:
  "error_events (map (\<lambda>sub. (ws sub, MsgError m)) subs) = map (\<lambda>sub. (ws sub, m)) subs"
  by (induction subs) simp_all

lemma log_events_append [simp]: "log_events (xs @ ys) = log_events xs @ log_events ys"
  by (induction xs rule: log_events.induct) simp_all

lemma poll_failure_step:
  assumes "subscriptions srv wid = Some subs"
  shows "subscriptions (poll hwm srv wid (Inl err) logfile t) wid = Some subs"
    and "sent (poll hwm srv wid (Inl err) logfile t) =
           sent srv @
             (if fst (shouldBroadcastPollingError srv wid (polling_error_message err) t)
              then map (\<lambda>sub. (ws sub, MsgError (polling_error_message err))) subs else [])"
    and "lastPollErrors (poll hwm srv wid (Inl err) logfile t) wid =
           (if fst (shouldBroadcastPollingError srv wid (polling_error_message err) t)
            then Some (polling_error_message err, t) else lastPollErrors srv wid)"
  using assms
  by (auto simp add: poll_def shouldBroadcastPollingError_def broadcast_def schedule_next_def Let_def
      split: option.splits)

lemma shouldBroadcastPollingError_due:
  "fst (shouldBroadcastPollingError srv wid m t) =
     (case lastPollErrors srv wid of
        None \<Rightarrow> True
      | Some previous \<Rightarrow> fst previous \<noteq> m \<or> t - snd previous > 30000)"
  by (simp add: shouldBroadcastPollingError_def Let_def split: option.splits)

lemma streamLogs_tails_each_subscription:
  assumes "subscriptions srv wid = Some subs"
  shows "log_events (sent (streamLogs hwm srv wid (Some content))) =
           log_events (sent srv) @
             concat (map (\<lambda>sub. map (Pair (ws sub)) (fst (tail_log hwm content sub))) subs)
       \<and> subscriptions (streamLogs hwm srv wid (Some content)) wid =
           Some (map (\<lambda>sub. snd (tail_log hwm content sub)) subs)"
proof -
  have ws: "ws (snd (tail_log hwm content sub)) = ws sub" for sub
    by (simp add: tail_log_def Let_def)
  have l: "log_events (map (\<lambda>line. (k, MsgLog line)) ls) = map (Pair k) ls" for k ls
    by (induction ls) simp_all
  have "log_events (concat (map (\<lambda>(lines, sub). map (\<lambda>line. (ws sub, MsgLog line)) lines)
                       (map (tail_log hwm content) subs))) =
        concat (map (\<lambda>sub. map (Pair (ws sub)) (fst (tail_log hwm content sub))) subs)"
    by (induction subs) (simp_all add: split_beta l ws)
  with assms show ?thesis
    by (simp add: streamLogs_def Let_def)
qed

text \<open>
  C8 as stated fails: the cooldown is measured from the last error that was broadcast
  (the entry of \<open>lastPollErrors\<close>), not from the previous failure. With a failed poll
  every 10000 ms (the error backoff) and the same text each time, the failures at 10000
  and 20000 produce no \<open>error\<close> message at all, and the failure at 40000 is broadcast
  although the failure before it was only 10000 ms earlier.
\<close>

theorem repeated_polling_error_counterexample:
  "sent (poll 65536 example_server ''shannon-1'' (Inl (ErrorObject ''connection refused'')) None 0)
     = [(1, MsgError ''Failed to query workflow: connection refused''),
        (2, MsgError ''Failed to query workflow: connection refused'')]
   \<and> sent (poll 65536
        (poll 65536
          (poll 65536 example_server ''shannon-1'' (Inl (ErrorObject ''connection refused'')) None 0)
          ''shannon-1'' (Inl (ErrorObject ''connection refused'')) None 10000)
        ''shannon-1'' (Inl (ErrorObject ''connection refused'')) None 20000)
     = sent (poll 65536 example_server ''shannon-1'' (Inl (ErrorObject ''connection refused'')) None 0)
   \<and> sent (poll 65536
        (poll 65536
          (poll 65536
            (poll 65536
              (poll 65536 example_server ''shannon-1'' (Inl (ErrorObject ''connection refused'')) None 0)
              ''shannon-1'' (Inl (ErrorObject ''connection refused'')) None 10000)
            ''shannon-1'' (Inl (ErrorObject ''connection refused'')) None 20000)
          ''shannon-1'' (Inl (ErrorObject ''connection refused'')) None 30000)
        ''shannon-1'' (Inl (ErrorObject ''connection refused'')) None 40000)
     = sent (poll 65536
          (poll 65536
            (poll 65536
              (poll 65536 example_server ''shannon-1'' (Inl (ErrorObject ''connection refused'')) None 0)
              ''shannon-1'' (Inl (ErrorObject ''connection refused'')) None 10000)
            ''shannon-1'' (Inl (ErrorObject ''connection refused'')) None 20000)
          ''shannon-1'' (Inl (ErrorObject ''connection refused'')) None 30000)
       @ [(1, MsgError ''Failed to query workflow: connection refused''),
          (2, MsgError ''Failed to query workflow: connection refused'')]"
proof -
  let ?e = "Inl (ErrorObject ''connection refused'') :: thrown + PipelineProgress"
  let ?m = "polling_error_message (ErrorObject ''connection refused'')"
  let ?subs = "[first_subscriber, second_subscriber]"
  let ?s0 = "poll 65536 example_server ''shannon-1'' ?e None 0"
  let ?s1 = "poll 65536 ?s0 ''shannon-1'' ?e None 10000"
  let ?s2 = "poll 65536 ?s1 ''shannon-1'' ?e None 20000"
  let ?s3 = "poll 65536 ?s2 ''shannon-1'' ?e None 30000"
  let ?s4 = "poll 65536 ?s3 ''shannon-1'' ?e None 40000"
  have m: "?m = ''Failed to query workflow: connection refused''"
    by (simp add: polling_error_message_def)
  have w: "map (\<lambda>sub. (ws sub, MsgError ?m)) ?subs =
             [(1, MsgError ''Failed to query workflow: connection refused''),
              (2, MsgError ''Failed to query workflow: connection refused'')]"
    by (simp add: m first_subscriber_def second_subscriber_def)
  have b: "subscriptions example_server ''shannon-1'' = Some ?subs"
    and r: "lastPollErrors example_server ''shannon-1'' = None"
    and s: "sent example_server = []"
    by (simp_all add: example_server_def)
  note b0 = poll_failure_step [OF b, of 65536 "ErrorObject ''connection refused''" None 0]
  have r0: "lastPollErrors ?s0 ''shannon-1'' = Some (?m, 0)"
    using b0(3) by (simp add: shouldBroadcastPollingError_due r)
  have s0: "sent ?s0 = map (\<lambda>sub. (ws sub, MsgError ?m)) ?subs"
    using b0(2) by (simp add: shouldBroadcastPollingError_due r s)
  note b1 = poll_failure_step [OF b0(1), of 65536 "ErrorObject ''connection refused''" None 10000]
  have r1: "lastPollErrors ?s1 ''shannon-1'' = Some (?m, 0)"
    using b1(3) by (simp add: shouldBroadcastPollingError_due r0)
  have s1: "sent ?s1 = sent ?s0"
    using b1(2) by (simp add: shouldBroadcastPollingError_due r0)
  note b2 = poll_failure_step [OF b1(1), of 65536 "ErrorObject ''connection refused''" None 20000]
  have r2: "lastPollErrors ?s2 ''shannon-1'' = Some (?m, 0)"
    using b2(3) by (simp add: shouldBroadcastPollingError_due r1)
  have s2: "sent ?s2 = sent ?s1"
    using b2(2) by (simp add: shouldBroadcastPollingError_due r1)
  note b3 = poll_failure_step [OF b2(1), of 65536 "ErrorObject ''connection refused''" None 30000]
  have r3: "lastPollErrors ?s3 ''shannon-1'' = Some (?m, 0)"
    using b3(3) by (simp add: shouldBroadcastPollingError_due r2)
  note b4 = poll_failure_step [OF b3(1), of 65536 "ErrorObject ''connection refused''" None 40000]
  have s4: "sent ?s4 = sent ?s3 @ map (\<lambda>sub. (ws sub, MsgError ?m)) ?subs"
    using b4(2) by (simp add: shouldBroadcastPollingError_due r3)
  from s0 s1 s2 s4 show ?thesis
    by (simp only: w)
qed

text \<open>
  C8, amended. Two successive failed polls of a subscribed run whose errors have the same
  text, the second at most 30000 ms after the first. A failure is broadcast when no
  polling error is recorded for the run, or the recorded text differs, or the failure is
  more than 30000 ms after the recorded one; the record is the last error that was
  broadcast. The second failure is broadcast only when the first was not and it is itself
  due against the record. So every subscriber receives at most one \<open>error\<close> message for
  the two: one when either failure is due, none when neither is. With no record (as when
  polling starts) every subscriber receives exactly one, from the first failure.
\<close>

theorem repeated_polling_error_at_most_once:
  assumes "subscriptions srv wid = Some subs"
    and "polling_error_message err2 = polling_error_message err1"
    and "t2 - t1 \<le> 30000"
  shows "fst (shouldBroadcastPollingError srv wid (polling_error_message err1) t) =
           (case lastPollErrors srv wid of
              None \<Rightarrow> True
            | Some previous \<Rightarrow>
                fst previous \<noteq> polling_error_message err1 \<or> t - snd previous > 30000)
       \<and> sent (poll hwm srv wid (Inl err1) f1 t1) =
           sent srv @
             (if fst (shouldBroadcastPollingError srv wid (polling_error_message err1) t1)
              then map (\<lambda>sub. (ws sub, MsgError (polling_error_message err1))) subs else [])
       \<and> sent (poll hwm (poll hwm srv wid (Inl err1) f1 t1) wid (Inl err2) f2 t2) =
           sent (poll hwm srv wid (Inl err1) f1 t1) @
             (if \<not> fst (shouldBroadcastPollingError srv wid (polling_error_message err1) t1)
                 \<and> fst (shouldBroadcastPollingError srv wid (polling_error_message err1) t2)
              then map (\<lambda>sub. (ws sub, MsgError (polling_error_message err1))) subs else [])
       \<and> error_events (sent (poll hwm (poll hwm srv wid (Inl err1) f1 t1) wid (Inl err2) f2 t2)) =
           error_events (sent srv) @
             (if fst (shouldBroadcastPollingError srv wid (polling_error_message err1) t1)
                 \<or> fst (shouldBroadcastPollingError srv wid (polling_error_message err1) t2)
              then map (\<lambda>sub. (ws sub, polling_error_message err1)) subs else [])
       \<and> (lastPollErrors srv wid = None \<longrightarrow>
            sent (poll hwm (poll hwm srv wid (Inl err1) f1 t1) wid (Inl err2) f2 t2)
              = sent srv @ map (\<lambda>sub. (ws sub, MsgError (polling_error_message err1))) subs)"
proof -
  let ?m = "polling_error_message err1"
  let ?p1 = "poll hwm srv wid (Inl err1) f1 t1"
  let ?p2 = "poll hwm ?p1 wid (Inl err2) f2 t2"
  let ?errs = "map (\<lambda>sub. (ws sub, MsgError ?m)) subs"
  let ?due1 = "fst (shouldBroadcastPollingError srv wid ?m t1)"
  let ?due2 = "fst (shouldBroadcastPollingError srv wid ?m t2)"
  note first = poll_failure_step [OF assms(1), of hwm err1 f1 t1]
  note second = poll_failure_step [OF first(1), of hwm err2 f2 t2]
  have again: "fst (shouldBroadcastPollingError ?p1 wid ?m t2) = (\<not> ?due1 \<and> ?due2)"
    using assms(3) by (simp add: shouldBroadcastPollingError_due [of ?p1] first(3))
      (simp add: shouldBroadcastPollingError_due)
  have s1: "sent ?p1 = sent srv @ (if ?due1 then ?errs else [])"
    by (rule first(2))
  have s2: "sent ?p2 = sent ?p1 @ (if \<not> ?due1 \<and> ?due2 then ?errs else [])"
    using second(2) by (simp add: assms(2) again)
  have ev: "error_events (sent ?p2) =
              error_events (sent srv) @
                (if ?due1 \<or> ?due2 then map (\<lambda>sub. (ws sub, ?m)) subs else [])"
    by (simp add: s1 s2)
  have fresh: "sent ?p2 = sent srv @ ?errs" if "lastPollErrors srv wid = None"
    using that by (simp add: s1 s2 shouldBroadcastPollingError_due)
  from s1 s2 ev fresh shouldBroadcastPollingError_due [of srv wid ?m t] show ?thesis
    by blast
qed

theorem repeated_polling_error_at_most_once_witness:
  "sent (poll 65536
           (poll 65536 example_server ''shannon-1'' (Inl (ErrorObject ''connection refused'')) None 1000)
           ''shannon-1'' (Inl (ErrorObject ''connection refused'')) None 31000)
     = [(1, MsgError ''Failed to query workflow: connection refused''),
        (2, MsgError ''Failed to query workflow: connection refused'')]"
proof -
  have h1: "subscriptions example_server ''shannon-1'' = Some [first_subscriber, second_subscriber]"
    by (simp add: example_server_def)
  have h2: "polling_error_message (ErrorObject ''connection refused'') =
            polling_error_message (ErrorObject ''connection refused'')"
    by simp
  have h3: "(31000::int) - 1000 \<le> 30000"
    by simp
  have h4: "lastPollErrors example_server ''shannon-1'' = None"
    by (simp add: example_server_def)
  from repeated_polling_error_at_most_once [OF h1 h2 h3, where hwm = 65536 and ?f1.0 = None and ?f2.0 = None]
    h4
  show ?thesis
    by (simp add: example_server_def first_subscriber_def second_subscriber_def
        polling_error_message_def)
qed

text \<open>
  C10. When the file ends in a partial line (bytes after the last newline), a read
  sends the complete lines only and still moves the offset to the end of the file. From
  then on the bytes before that offset are out of reach: whatever is appended later,
  the later reads send exactly what reading the appended bytes alone would send, and
  once the line is terminated only its tail is sent, never the whole line.
  (\<open>streamLogs_tails_each_subscription\<close> relates \<open>tail_log\<close> to the \<open>log\<close> messages
  of \<open>streamLogs\<close>.)
\<close>

theorem partial_line_is_skipped:
  assumes "logPosition sub \<le> length pre" and "partial \<noteq> []" and "newline \<notin> set partial"
  shows "tail_log hwm (pre @ partial) sub =
           (filter trim_nonempty (butlast (split_newline (drop (logPosition sub) pre))),
            sub\<lparr>logPosition := length pre + length partial\<rparr>)
       \<and> fst (tail_polls hwm (snd (tail_log hwm (pre @ partial) sub))
                 (map (\<lambda>ext. (pre @ partial) @ ext) exts))
           = fst (tail_polls hwm (sub\<lparr>logPosition := 0\<rparr>) exts)
       \<and> (newline \<notin> set rest \<longrightarrow>
            fst (tail_log hwm ((pre @ partial) @ rest @ [newline])
                   (snd (tail_log hwm (pre @ partial) sub)))
              = filter trim_nonempty [rest]
            \<and> partial @ rest \<noteq> rest)"
proof -
  have lt: "logPosition sub < length (pre @ partial)"
    using assms(1,2) by (cases partial) auto
  have first: "tail_log hwm (pre @ partial) sub =
           (filter trim_nonempty (butlast (split_newline (drop (logPosition sub) pre))),
            sub\<lparr>logPosition := length pre + length partial\<rparr>)"
    using tail_log_lines [OF lt, where hwm = hwm] assms(1)
      split_newline_partial [OF assms(3), of "drop (logPosition sub) pre"]
    by simp
  have later: "fst (tail_polls hwm (snd (tail_log hwm (pre @ partial) sub))
                 (map (\<lambda>ext. (pre @ partial) @ ext) exts))
           = fst (tail_polls hwm (sub\<lparr>logPosition := 0\<rparr>) exts)"
    using tail_polls_shift [where hwm = hwm and sub = sub and base = "pre @ partial" and q = 0 and exts = exts]
    by (simp add: first del: append_assoc)
  have terminated: "fst (tail_log hwm ((pre @ partial) @ rest @ [newline])
                   (snd (tail_log hwm (pre @ partial) sub)))
              = filter trim_nonempty [rest]"
    if "newline \<notin> set rest"
  proof -
    have "split_newline (rest @ [newline]) = [rest, []]"
      by (rule split_newline_terminated [OF that])
    then show ?thesis
      using tail_log_lines [where sub = "sub\<lparr>logPosition := length pre + length partial\<rparr>"
          and content = "(pre @ partial) @ rest @ [newline]" and hwm = hwm]
      by (simp add: first)
  qed
  from first later terminated assms(2) show ?thesis by simp
qed

theorem partial_line_is_skipped_witness:
  "tail_log 2 (''ab'' @ [newline] @ ''cd'') first_subscriber =
     ([''ab''], first_subscriber\<lparr>logPosition := 5\<rparr>)
   \<and> fst (tail_log 2 (''ab'' @ [newline] @ ''cd'' @ ''ef'' @ [newline])
            (first_subscriber\<lparr>logPosition := 5\<rparr>)) = [''ef'']"
proof -
  have h1: "logPosition first_subscriber \<le> length (''ab'' @ [newline])"
    by (simp add: first_subscriber_def)
  have h2: "''cd'' \<noteq> []"
    by simp
  have h3: "newline \<notin> set ''cd''"
    by (simp add: newline_def)
  have h4: "newline \<notin> set ''ef''"
    by (simp add: newline_def)
  from partial_line_is_skipped [OF h1 h2 h3, of 2 "[]" "''ef''"] h4
  show ?thesis
    by (auto simp add: first_subscriber_def newline_def trim_nonempty_def whitespace_def eval_nat_numeral)
qed

end
